theory Spec2Isabelle
  imports Main "HOL-Library.AList"
begin

section \<open>JavaScript values used by the plugin\<close>

text \<open>
  Strings are lists of 8-bit characters (code points below 256). A JavaScript number that
  holds a time value is either NaN or an integer, so it is an \<open>int option\<close> with
  \<open>None\<close> for NaN; comparisons with NaN are false. A \<open>Date\<close> object holds such a
  time value: \<open>InvalidDate\<close> is the date whose \<open>getTime()\<close> is NaN.
\<close>

datatype error_class = PlainError | TypeError | RangeError | SyntaxError

text \<open>
  What the code throws: instances of \<open>Error\<close> (class and message), and the plain object
  \<open>{status, retryAfter, message}\<close> that \<open>handleResponse\<close> throws on HTTP 429.
\<close>

datatype thrown = JsError error_class string | RateLimitObject int int string

datatype js_date = InvalidDate | Date int

fun getTime :: "js_date \<Rightarrow> int option" where
  "getTime InvalidDate = None"
| "getTime (Date t) = Some t"

definition js_lt :: "int option \<Rightarrow> int option \<Rightarrow> bool" where
  "js_lt a b = (case a of None \<Rightarrow> False | Some x \<Rightarrow> (case b of None \<Rightarrow> False | Some y \<Rightarrow> x < y))"

definition js_le :: "int option \<Rightarrow> int option \<Rightarrow> bool" where
  "js_le a b = (case a of None \<Rightarrow> False | Some x \<Rightarrow> (case b of None \<Rightarrow> False | Some y \<Rightarrow> x \<le> y))"

definition js_ge :: "int option \<Rightarrow> int option \<Rightarrow> bool" where
  "js_ge a b = js_le b a"

text \<open>
  \<open>new Date(n)\<close> applies TimeClip: a time value beyond 8.64e15 ms on either side of the
  Unix epoch gives the invalid date. The argument here is \<open>Number(b)\<close> of a BigInt
  \<open>b\<close>; that conversion is exact up to 2^53 and monotone, so it is not in the way:
  a value it rounds is beyond the limit before and after rounding.
\<close>

definition MAX_TIME :: int where
  "MAX_TIME = 8640000000000000"

definition newDate :: "int \<Rightarrow> js_date" where
  "newDate n = (if \<bar>n\<bar> \<le> MAX_TIME then Date n else InvalidDate)"

text \<open>\<open>BigInt(number)\<close> throws a RangeError on NaN.\<close>

definition BigInt_of_number :: "int option \<Rightarrow> thrown + int" where
  "BigInt_of_number n =
     (case n of None \<Rightarrow> Inl (JsError RangeError ''not an integer'') | Some t \<Rightarrow> Inr t)"

subsection \<open>Whitespace and trimming\<close>

text \<open>
  The characters that \<open>String.prototype.trim\<close>, \<open>parseInt\<close> and \<open>BigInt\<close> skip:
  tab, line feed, vertical tab, form feed, carriage return, space and no-break space
  (the whitespace and line terminators below code point 256).
\<close>

definition isWhiteSpace :: "char \<Rightarrow> bool" where
  "isWhiteSpace c = ((of_char c :: int) \<in> {9, 10, 11, 12, 13, 32, 160})"

definition trimStart :: "string \<Rightarrow> string" where
  "trimStart s = dropWhile isWhiteSpace s"

definition trimEnd :: "string \<Rightarrow> string" where
  "trimEnd s = rev (dropWhile isWhiteSpace (rev s))"

definition trim :: "string \<Rightarrow> string" where
  "trim s = trimEnd (trimStart s)"

subsection \<open>Numerals\<close>

definition digitOf :: "char \<Rightarrow> int option" where
  "digitOf c =
     (let n = (of_char c :: int) in
      if 48 \<le> n \<and> n \<le> 57 then Some (n - 48)
      else if 97 \<le> n \<and> n \<le> 102 then Some (n - 87)
      else if 65 \<le> n \<and> n \<le> 70 then Some (n - 55)
      else None)"

definition isDigit :: "int \<Rightarrow> char \<Rightarrow> bool" where
  "isDigit r c = (case digitOf c of None \<Rightarrow> False | Some d \<Rightarrow> d < r)"

text \<open>The value of a run of digits in radix \<open>r\<close>; \<open>None\<close> if it is empty or a character is no digit.\<close>

fun numeralValue :: "int \<Rightarrow> int \<Rightarrow> string \<Rightarrow> int option" where
  "numeralValue r acc [] = Some acc"
| "numeralValue r acc (c # cs) =
     (case digitOf c of
        None \<Rightarrow> None
      | Some d \<Rightarrow> if d < r then numeralValue r (acc * r + d) cs else None)"

definition digitsValue :: "int \<Rightarrow> string \<Rightarrow> int option" where
  "digitsValue r cs = (if cs = [] then None else numeralValue r 0 cs)"

text \<open>
  \<open>BigInt(string)\<close>: surrounding whitespace is skipped, the empty literal is 0, a decimal
  literal may carry a sign, \<open>0x\<close>, \<open>0o\<close> and \<open>0b\<close> literals may not; anything else is a
  SyntaxError.
\<close>

definition stringToBigInt :: "string \<Rightarrow> int option" where
  "stringToBigInt str =
     (case trim str of
        [] \<Rightarrow> Some 0
      | [c] \<Rightarrow> digitsValue 10 [c]
      | c # d # cs \<Rightarrow>
          if c = CHR ''0'' \<and> (d = CHR ''x'' \<or> d = CHR ''X'') then digitsValue 16 cs
          else if c = CHR ''0'' \<and> (d = CHR ''o'' \<or> d = CHR ''O'') then digitsValue 8 cs
          else if c = CHR ''0'' \<and> (d = CHR ''b'' \<or> d = CHR ''B'') then digitsValue 2 cs
          else if c = CHR ''+'' then digitsValue 10 (d # cs)
          else if c = CHR ''-'' then map_option uminus (digitsValue 10 (d # cs))
          else digitsValue 10 (c # d # cs))"

definition BigInt_of_string :: "string \<Rightarrow> thrown + int" where
  "BigInt_of_string str =
     (case stringToBigInt str of
        None \<Rightarrow> Inl (JsError SyntaxError ''Cannot convert to a BigInt'')
      | Some n \<Rightarrow> Inr n)"

text \<open>\<open>toString()\<close> of a non-negative integer and of a BigInt: decimal, no leading zeros.\<close>

definition digitChar :: "int \<Rightarrow> char" where
  "digitChar d = char_of (48 + d)"

function decimalDigits :: "int \<Rightarrow> string" where
  "decimalDigits n =
     (if n < 10 then [digitChar n] else decimalDigits (n div 10) @ [digitChar (n mod 10)])"
  by pat_completeness auto
termination
  by (relation "measure nat") auto

declare decimalDigits.simps [simp del]

definition bigIntToString :: "int \<Rightarrow> string" where
  "bigIntToString n = (if n < 0 then CHR ''-'' # decimalDigits (- n) else decimalDigits n)"

text \<open>
  \<open>parseInt(string, 10)\<close>: leading whitespace is skipped, then an optional sign, then the
  longest run of decimal digits; NaN (\<open>None\<close>) if that run is empty. The result is the
  mathematical value of the digits; JavaScript rounds it to the nearest double beyond 2^53,
  which turns no non-zero value into zero or NaN.
\<close>

definition parseInt10 :: "string \<Rightarrow> int option" where
  "parseInt10 str =
     (let S = trimStart str;
          sign = (case S of [] \<Rightarrow> 1 | c # cs \<Rightarrow> if c = CHR ''-'' then - 1 else (1::int));
          S' = (case S of [] \<Rightarrow> [] | c # cs \<Rightarrow> if c = CHR ''-'' \<or> c = CHR ''+'' then cs else S);
          Z = takeWhile (isDigit 10) S'
      in case digitsValue 10 Z of None \<Rightarrow> None | Some v \<Rightarrow> Some (sign * v))"

section \<open>DateUtils: the snowflake codec\<close>

definition DISCORD_EPOCH :: int where
  "DISCORD_EPOCH = 1420070400000"

text \<open>The body of the \<open>try\<close> block of \<open>snowflakeToDate\<close>.\<close>

definition snowflakeToDate_try :: "string \<Rightarrow> thrown + js_date" where
  "snowflakeToDate_try snowflake =
     (case BigInt_of_string snowflake of
        Inl e \<Rightarrow> Inl e
      | Inr b \<Rightarrow>
          (let timestamp = drop_bit 22 b + DISCORD_EPOCH;
               date = newDate timestamp
           in if getTime date = None then Inl (JsError PlainError ''Invalid date from snowflake'')
              else Inr date))"

text \<open>
  \<open>snowflakeToDate\<close>: the result is \<open>Inr None\<close> for the null sentinel and \<open>Inr (Some d)\<close>
  for a date; \<open>Inl\<close> would be an exception leaving the function.
\<close>

definition snowflakeToDate :: "string \<Rightarrow> thrown + js_date option" where
  "snowflakeToDate snowflake =
     (if snowflake = [] then Inr None
      else case snowflakeToDate_try snowflake of
             Inl error \<Rightarrow> Inr None
           | Inr date \<Rightarrow> Inr (Some date))"

text \<open>
  The argument of \<open>dateToDiscordSnowflake\<close> is declared \<open>Date | string\<close> and tested for
  falsiness, so null is an argument too. \<open>Date.parse\<close> is a parameter.
\<close>

datatype date_arg = NullArg | StringArg string | DateArg js_date

fun falsy_date :: "date_arg \<Rightarrow> bool" where
  "falsy_date NullArg = True"
| "falsy_date (StringArg s) = (s = [])"
| "falsy_date (DateArg d) = False"

fun date_of_arg :: "(string \<Rightarrow> js_date) \<Rightarrow> date_arg \<Rightarrow> js_date" where
  "date_of_arg parseDate (DateArg d) = d"
| "date_of_arg parseDate (StringArg s) = parseDate s"
| "date_of_arg parseDate NullArg = InvalidDate"

definition dateToDiscordSnowflake_try :: "(string \<Rightarrow> js_date) \<Rightarrow> date_arg \<Rightarrow> thrown + string" where
  "dateToDiscordSnowflake_try parseDate date =
     (case BigInt_of_number (getTime (date_of_arg parseDate date)) of
        Inl e \<Rightarrow> Inl e
      | Inr timestamp \<Rightarrow>
          (let snowflake = bigIntToString (push_bit 22 (timestamp - DISCORD_EPOCH))
           in case snowflakeToDate snowflake of
                Inl e \<Rightarrow> Inl e
              | Inr None \<Rightarrow> Inl (JsError PlainError ''Verification failed for snowflake'')
              | Inr (Some verificationDate) \<Rightarrow> Inr snowflake))"

definition dateToDiscordSnowflake :: "(string \<Rightarrow> js_date) \<Rightarrow> date_arg \<Rightarrow> thrown + string option" where
  "dateToDiscordSnowflake parseDate date =
     (if falsy_date date then Inr None
      else case dateToDiscordSnowflake_try parseDate date of
             Inl error \<Rightarrow> Inr None
           | Inr snowflake \<Rightarrow> Inr (Some snowflake))"

section \<open>The Discord client\<close>

record user =
  username :: string

text \<open>
  A message as the interface declares it; \<open>author\<close> and \<open>content\<close> may be null, which
  \<open>formatMessagesForPrompt\<close> tests for.
\<close>

record message =
  id_msg :: string
  author :: "user option"
  content :: "string option"
  timestamp :: string

subsection \<open>formatMessagesForPrompt\<close>

text \<open>\<open>Array.prototype.join\<close>.\<close>

fun join :: "string \<Rightarrow> string list \<Rightarrow> string" where
  "join sep [] = []"
| "join sep [x] = x"
| "join sep (x # y # ys) = x @ sep @ join sep (y # ys)"

text \<open>The filter callback \<open>msg && msg.author && msg.content\<close>: the empty string is falsy.\<close>

definition keepMessage :: "message option \<Rightarrow> bool" where
  "keepMessage msg =
     (case msg of
        None \<Rightarrow> False
      | Some m \<Rightarrow> author m \<noteq> None \<and> (case content m of None \<Rightarrow> False | Some c \<Rightarrow> c \<noteq> []))"

text \<open>
  The map callback: reading a property of null throws a TypeError, which would leave
  \<open>formatMessagesForPrompt\<close> as it has no handler.
\<close>

definition renderMessage :: "message option \<Rightarrow> thrown + string" where
  "renderMessage msg =
     (case msg of
        None \<Rightarrow> Inl (JsError TypeError ''Cannot read properties of null'')
      | Some m \<Rightarrow>
          (case author m of
             None \<Rightarrow> Inl (JsError TypeError ''Cannot read properties of null'')
           | Some a \<Rightarrow>
               (case content m of
                  None \<Rightarrow> Inl (JsError TypeError ''Cannot read properties of null'')
                | Some c \<Rightarrow> Inr (username a @ '': '' @ trim c))))"

fun mapThrowing :: "('a \<Rightarrow> thrown + 'b) \<Rightarrow> 'a list \<Rightarrow> thrown + 'b list" where
  "mapThrowing f [] = Inr []"
| "mapThrowing f (x # xs) =
     (case f x of
        Inl e \<Rightarrow> Inl e
      | Inr y \<Rightarrow> (case mapThrowing f xs of Inl e \<Rightarrow> Inl e | Inr ys \<Rightarrow> Inr (y # ys)))"

definition formatMessagesForPrompt :: "message option list \<Rightarrow> thrown + string" where
  "formatMessagesForPrompt messages =
     (case mapThrowing renderMessage (filter keepMessage messages) of
        Inl e \<Rightarrow> Inl e
      | Inr lines \<Rightarrow> Inr (join [CHR 0x0A] lines))"

subsection \<open>handleResponse\<close>

text \<open>
  What the code reads of a \<open>Response\<close>: the status, the \<open>Retry-After\<close> header
  (\<open>None\<close> when \<open>headers.get\<close> gives null) and the outcome of \<open>json()\<close>.
  \<open>response.ok\<close> is true for the statuses 200 to 299.
\<close>

record 'a response =
  status :: int
  retryAfterHeader :: "string option"
  json :: "thrown + 'a"

definition ok :: "'a response \<Rightarrow> bool" where
  "ok response = (200 \<le> status response \<and> status response \<le> 299)"

definition handleResponse :: "'a response \<Rightarrow> thrown + 'a" where
  "handleResponse response =
     (if ok response then json response
      else if status response = 401 then
        Inl (JsError PlainError ''Invalid Discord token. Please check your credentials.'')
      else if status response = 403 then
        Inl (JsError PlainError
               ''Access denied. Please ensure you have permission to view this channel.'')
      else if status response = 429 then
        (let retryAfter =
               (case retryAfterHeader response of
                  None \<Rightarrow> ''5''
                | Some h \<Rightarrow> if h = [] then ''5'' else h)
         in Inl (RateLimitObject 429
                   (case parseInt10 retryAfter of
                      None \<Rightarrow> 5
                    | Some n \<Rightarrow> if n = 0 then 5 else n)
                   ''Rate limited by Discord API''))
      else if status response = 404 then
        Inl (JsError PlainError ''Channel not found. Please check the channel ID.'')
      else Inl (JsError PlainError (''HTTP error! status: '' @ bigIntToString (status response))))"

subsection \<open>fetchMessagesPage\<close>

text \<open>
  The environment of a \<open>Discord\<close> object: its \<open>apiBase\<close>, the network, the clock and
  \<open>Date.parse\<close>. \<open>fetch env n url token\<close> is what the \<open>n\<close>-th request of a run
  (counted from 0) gets for that URL and Authorization header: a rejection or a response.
  The delay between pages changes no result and is left out.
\<close>

record env =
  apiBase :: string
  fetch :: "nat \<Rightarrow> string \<Rightarrow> string \<Rightarrow> thrown + (message list) response"
  parseDate :: "string \<Rightarrow> js_date"
  now :: js_date

text \<open>
  \<open>if (before)\<close>: null and the empty string add nothing to the URL. The parameters
  \<open>before\<close> and \<open>after\<close> are \<open>beforeCursor\<close> and \<open>afterCursor\<close> here.
\<close>

definition queryParam :: "string \<Rightarrow> string option \<Rightarrow> string" where
  "queryParam name v = (case v of None \<Rightarrow> [] | Some c \<Rightarrow> if c = [] then [] else name @ c)"

definition messagesUrl :: "string \<Rightarrow> string \<Rightarrow> string option \<Rightarrow> string option \<Rightarrow> string" where
  "messagesUrl base channelId beforeCursor afterCursor =
     base @ ''/channels/'' @ channelId @ ''/messages?limit=100''
       @ queryParam ''&before='' beforeCursor @ queryParam ''&after='' afterCursor"

definition fetchMessagesPage ::
  "env \<Rightarrow> nat \<Rightarrow> string \<Rightarrow> string \<Rightarrow> string option \<Rightarrow> string option \<Rightarrow> thrown + message list" where
  "fetchMessagesPage e n channelId userToken beforeCursor afterCursor =
     (case fetch e n (messagesUrl (apiBase e) channelId beforeCursor afterCursor) userToken of
        Inl error \<Rightarrow> Inl error
      | Inr response \<Rightarrow> handleResponse response)"

subsection \<open>getAllMessagesBetweenDates\<close>

text \<open>
  The local variables of the walk. \<open>allMessages\<close> is the \<open>Map\<close>: an association list in
  insertion order, where setting a key that is present replaces its value in place.
  \<open>fetched\<close> is the trace of the run: the cursor of every call of \<open>fetchMessagesPage\<close>
  and what the call gave.
\<close>

record walk_state =
  allMessages :: "(string \<times> message) list"
  currentBefore :: "string option"
  pageCount :: int
  hasMore :: bool
  hitOldMessage :: bool
  fetched :: "(string option \<times> (thrown + message list)) list"

definition msgTime :: "(string \<Rightarrow> js_date) \<Rightarrow> message \<Rightarrow> int option" where
  "msgTime parse msg = getTime (parse (timestamp msg))"

text \<open>
  The two tests of the \<open>for\<close> loop: \<open>msgTime < fromDate.getTime()\<close> and
  \<open>msgTime >= fromDate.getTime() && msgTime <= effectiveToDate.getTime()\<close>.
\<close>

definition isOld :: "(string \<Rightarrow> js_date) \<Rightarrow> js_date \<Rightarrow> message \<Rightarrow> bool" where
  "isOld parse fromDate msg = js_lt (msgTime parse msg) (getTime fromDate)"

definition inWindow :: "(string \<Rightarrow> js_date) \<Rightarrow> js_date \<Rightarrow> js_date \<Rightarrow> message \<Rightarrow> bool" where
  "inWindow parse fromDate effectiveToDate msg =
     (js_ge (msgTime parse msg) (getTime fromDate)
      \<and> js_le (msgTime parse msg) (getTime effectiveToDate))"

text \<open>\<open>allMessages.set(msg.id, msg)\<close>.\<close>

definition setMessage :: "(string \<times> message) list \<Rightarrow> message \<Rightarrow> (string \<times> message) list" where
  "setMessage al msg = AList.update (id_msg msg) msg al"

text \<open>The \<open>for\<close> loop over one page, with its \<open>break\<close>.\<close>

fun scanMessages ::
  "(string \<Rightarrow> js_date) \<Rightarrow> js_date \<Rightarrow> js_date \<Rightarrow> message list \<Rightarrow> walk_state \<Rightarrow> walk_state" where
  "scanMessages parse fromDate effectiveToDate [] s = s"
| "scanMessages parse fromDate effectiveToDate (msg # rest) s =
     (if isOld parse fromDate msg then s\<lparr>hitOldMessage := True\<rparr>
      else if inWindow parse fromDate effectiveToDate msg
      then scanMessages parse fromDate effectiveToDate rest
             (s\<lparr>allMessages := setMessage (allMessages s) msg\<rparr>)
      else scanMessages parse fromDate effectiveToDate rest s)"

text \<open>
  The \<open>while\<close> loop. The result is the state at the exit and the exception that ended
  the loop, if one did.
\<close>

function messagesLoop ::
  "env \<Rightarrow> string \<Rightarrow> string \<Rightarrow> js_date \<Rightarrow> js_date \<Rightarrow> int \<Rightarrow> walk_state
     \<Rightarrow> walk_state \<times> thrown option" where
  "messagesLoop e channelId userToken fromDate effectiveToDate maxPages s =
     (if hasMore s \<and> pageCount s < maxPages \<and> \<not> hitOldMessage s then
        (case fetchMessagesPage e (length (fetched s)) channelId userToken (currentBefore s) None of
           Inl error \<Rightarrow>
             (s\<lparr>fetched := fetched s @ [(currentBefore s, Inl error)]\<rparr>, Some error)
         | Inr messages \<Rightarrow>
             (let s1 = s\<lparr>fetched := fetched s @ [(currentBefore s, Inr messages)]\<rparr> in
              if messages = [] then
                messagesLoop e channelId userToken fromDate effectiveToDate maxPages
                  (s1\<lparr>hasMore := False\<rparr>)
              else
                (let s2 = scanMessages (parseDate e) fromDate effectiveToDate messages s1 in
                 if \<not> hitOldMessage s2 \<and> length messages = 100 then
                   messagesLoop e channelId userToken fromDate effectiveToDate maxPages
                     (s2\<lparr>currentBefore := Some (id_msg (last messages)),
                         pageCount := pageCount s2 + 1\<rparr>)
                 else
                   messagesLoop e channelId userToken fromDate effectiveToDate maxPages
                     (s2\<lparr>hasMore := False\<rparr>))))
      else (s, None))"
  by pat_completeness auto
termination
proof (relation "measure (\<lambda>(e, channelId, userToken, fromDate, effectiveToDate, maxPages, s).
         if hasMore s \<and> pageCount s < maxPages \<and> \<not> hitOldMessage s
         then nat (maxPages - pageCount s) + 1 else 0)", goal_cases)
  case 1
  show ?case by simp
next
  case (2 e channelId userToken fromDate effectiveToDate maxPages s messages s1)
  then show ?case by simp
next
  case (3 e channelId userToken fromDate effectiveToDate maxPages s messages s1 s2)
  have "pageCount (scanMessages p f t ms st) = pageCount st" for p f t ms st
    by (induction ms arbitrary: st) simp_all
  with 3 show ?case by simp
next
  case (4 e channelId userToken fromDate effectiveToDate maxPages s messages s1 s2)
  then show ?case by simp
qed

declare messagesLoop.simps [simp del]

text \<open>
  \<open>Array.prototype.sort\<close> with the comparator \<open>(a, b) => time(a) - time(b)\<close>. The sort is
  stable; a NaN from the comparator counts as 0. The model is the stable insertion sort.
\<close>

definition compareTimestamps :: "(string \<Rightarrow> js_date) \<Rightarrow> message \<Rightarrow> message \<Rightarrow> int" where
  "compareTimestamps parse a b =
     (case msgTime parse a of
        None \<Rightarrow> 0
      | Some x \<Rightarrow> (case msgTime parse b of None \<Rightarrow> 0 | Some y \<Rightarrow> x - y))"

fun insertSorted :: "('a \<Rightarrow> 'a \<Rightarrow> int) \<Rightarrow> 'a \<Rightarrow> 'a list \<Rightarrow> 'a list" where
  "insertSorted cmp x [] = [x]"
| "insertSorted cmp x (y # ys) =
     (if cmp x y \<le> 0 then x # y # ys else y # insertSorted cmp x ys)"

definition sortWith :: "('a \<Rightarrow> 'a \<Rightarrow> int) \<Rightarrow> 'a list \<Rightarrow> 'a list" where
  "sortWith cmp xs = foldr (insertSorted cmp) xs []"

definition initialState :: "string option \<Rightarrow> walk_state" where
  "initialState beforeSnowflake =
     \<lparr>allMessages = [], currentBefore = beforeSnowflake, pageCount = 0, hasMore = True,
      hitOldMessage = False, fetched = []\<rparr>"

definition effectiveTo :: "env \<Rightarrow> js_date option \<Rightarrow> js_date" where
  "effectiveTo e toDate = (case toDate of None \<Rightarrow> now e | Some d \<Rightarrow> d)"

text \<open>
  The body of the \<open>try\<close> block up to the end of the loop. \<open>maxPages\<close> is \<open>None\<close> when
  the caller leaves it out.
\<close>

definition walk ::
  "env \<Rightarrow> string \<Rightarrow> string \<Rightarrow> js_date \<Rightarrow> js_date option \<Rightarrow> int option
     \<Rightarrow> walk_state \<times> thrown option" where
  "walk e channelId userToken fromDate toDate maxPages =
     (let effectiveToDate = effectiveTo e toDate in
      case dateToDiscordSnowflake (parseDate e) (DateArg effectiveToDate) of
        Inl error \<Rightarrow> (initialState None, Some error)
      | Inr beforeSnowflake \<Rightarrow>
          messagesLoop e channelId userToken fromDate effectiveToDate
            (case maxPages of None \<Rightarrow> 50 | Some n \<Rightarrow> n) (initialState beforeSnowflake))"

text \<open>The message of the error that the \<open>catch\<close> block throws.\<close>

definition causeText :: "thrown \<Rightarrow> string" where
  "causeText error =
     (case error of JsError c m \<Rightarrow> m | RateLimitObject st ra m \<Rightarrow> ''Unknown error'')"

definition getAllMessagesBetweenDates ::
  "env \<Rightarrow> string \<Rightarrow> string \<Rightarrow> js_date \<Rightarrow> js_date option \<Rightarrow> int option
     \<Rightarrow> thrown + message list" where
  "getAllMessagesBetweenDates e channelId userToken fromDate toDate maxPages =
     (case walk e channelId userToken fromDate toDate maxPages of
        (s, Some error) \<Rightarrow>
          Inl (JsError PlainError (''Failed to fetch messages: '' @ causeText error))
      | (s, None) \<Rightarrow>
          Inr (sortWith (compareTimestamps (parseDate e)) (map snd (allMessages s))))"

subsection \<open>Reading the trace of a run\<close>

text \<open>
  The messages of a page that the \<open>for\<close> loop sets into the map: those before the first
  old message that are in the window; the pages a trace holds; and the messages set during
  a whole trace, in the order of the \<open>set\<close> calls.
\<close>

definition accepted ::
  "(string \<Rightarrow> js_date) \<Rightarrow> js_date \<Rightarrow> js_date \<Rightarrow> message list \<Rightarrow> message list" where
  "accepted parse fromDate effectiveToDate page =
     filter (inWindow parse fromDate effectiveToDate)
       (takeWhile (\<lambda>m. \<not> isOld parse fromDate m) page)"

fun pagesOf :: "(string option \<times> (thrown + message list)) list \<Rightarrow> message list list" where
  "pagesOf [] = []"
| "pagesOf ((c, Inl error) # tr) = pagesOf tr"
| "pagesOf ((c, Inr page) # tr) = page # pagesOf tr"

definition writes ::
  "(string \<Rightarrow> js_date) \<Rightarrow> js_date \<Rightarrow> js_date
     \<Rightarrow> (string option \<times> (thrown + message list)) list \<Rightarrow> message list" where
  "writes parse fromDate effectiveToDate tr =
     concat (map (accepted parse fromDate effectiveToDate) (pagesOf tr))"

subsection \<open>The loop, one iteration at a time\<close>

text \<open>
  The loop condition, the state in which the loop ends after a page that is not followed
  by another, and the state in which it goes on after a full page without an old message.
\<close>

definition loopCond :: "int \<Rightarrow> walk_state \<Rightarrow> bool" where
  "loopCond mp s = (hasMore s \<and> pageCount s < mp \<and> \<not> hitOldMessage s)"

definition lastState :: "(string \<Rightarrow> js_date) \<Rightarrow> js_date \<Rightarrow> js_date \<Rightarrow> message list \<Rightarrow> walk_state \<Rightarrow> walk_state" where
  "lastState p f t page s =
     \<lparr>allMessages = foldl setMessage (allMessages s) (accepted p f t page),
      currentBefore = currentBefore s,
      pageCount = pageCount s,
      hasMore = False,
      hitOldMessage = (\<exists>m\<in>set page. isOld p f m),
      fetched = fetched s @ [(currentBefore s, Inr page)]\<rparr>"

definition nextState :: "(string \<Rightarrow> js_date) \<Rightarrow> js_date \<Rightarrow> js_date \<Rightarrow> message list \<Rightarrow> walk_state \<Rightarrow> walk_state" where
  "nextState p f t page s =
     \<lparr>allMessages = foldl setMessage (allMessages s) (accepted p f t page),
      currentBefore = Some (id_msg (last page)),
      pageCount = pageCount s + 1,
      hasMore = True,
      hitOldMessage = False,
      fetched = fetched s @ [(currentBefore s, Inr page)]\<rparr>"

text \<open>
  What a trace says about a run: every entry is the result of the call of
  \<open>fetchMessagesPage\<close> with that cursor, counted from \<open>n\<close>; the exception of a trace is
  the failure of its last entry; a page after which the walk went on is full and has no
  old message. \<open>runs\<close> relates the state before the loop, the entries the loop adds to
  the trace and the result of the loop.
\<close>

fun faithful :: "env \<Rightarrow> string \<Rightarrow> string \<Rightarrow> nat \<Rightarrow> (string option \<times> (thrown + message list)) list \<Rightarrow> bool" where
  "faithful e ch tok n [] = True"
| "faithful e ch tok n (x # tr) =
     (snd x = fetchMessagesPage e n ch tok (fst x) None \<and> faithful e ch tok (Suc n) tr)"

definition lastError :: "(string option \<times> (thrown + message list)) list \<Rightarrow> thrown option" where
  "lastError tr = (if tr = [] then None else (case snd (last tr) of Inl err \<Rightarrow> Some err | Inr page \<Rightarrow> None))"

definition fullFresh :: "(string \<Rightarrow> js_date) \<Rightarrow> js_date \<Rightarrow> (string option \<times> (thrown + message list)) \<Rightarrow> bool" where
  "fullFresh p f x = (case snd x of Inl err \<Rightarrow> False | Inr page \<Rightarrow> length page = 100 \<and> (\<forall>m\<in>set page. \<not> isOld p f m))"

definition runs :: "env \<Rightarrow> string \<Rightarrow> string \<Rightarrow> js_date \<Rightarrow> js_date \<Rightarrow> int \<Rightarrow> walk_state
   \<Rightarrow> (string option \<times> (thrown + message list)) list \<Rightarrow> walk_state \<times> thrown option \<Rightarrow> bool" where
  "runs e ch tok f t mp s new r =
     (fetched (fst r) = fetched s @ new
      \<and> allMessages (fst r) = foldl setMessage (allMessages s) (writes (parseDate e) f t new)
      \<and> int (length new) \<le> max 0 (mp - pageCount s)
      \<and> faithful e ch tok (length (fetched s)) new
      \<and> (\<forall>x\<in>set (butlast new). fullFresh (parseDate e) f x)
      \<and> snd r = lastError new
      \<and> (loopCond mp s \<longrightarrow> new \<noteq> [] \<and> fst (hd new) = currentBefore s))"

subsection \<open>The whole walk\<close>

text \<open>
  The cursor that seeds the first page and the page bound in force; the order of two
  messages by time, false when either time is NaN.
\<close>

definition initialCursor :: "env \<Rightarrow> js_date option \<Rightarrow> string option" where
  "initialCursor e toDate =
     (case dateToDiscordSnowflake (parseDate e) (DateArg (effectiveTo e toDate)) of
        Inl error \<Rightarrow> None
      | Inr beforeSnowflake \<Rightarrow> beforeSnowflake)"

definition pageLimit :: "int option \<Rightarrow> int" where
  "pageLimit maxPages = (case maxPages of None \<Rightarrow> 50 | Some n \<Rightarrow> n)"

definition timeLe :: "(string \<Rightarrow> js_date) \<Rightarrow> message \<Rightarrow> message \<Rightarrow> bool" where
  "timeLe parse a b = js_le (msgTime parse a) (msgTime parse b)"

subsection \<open>The prompt lines, as the specification words them\<close>

text \<open>
  A message that is null, has no author, or has no content or the empty content gives no
  line; any other gives \<open>username: trimmed content\<close>; the order is that of the input.
\<close>

fun promptLines :: "message option list \<Rightarrow> string list" where
  "promptLines [] = []"
| "promptLines (None # ms) = promptLines ms"
| "promptLines (Some m # ms) =
     (case author m of
        None \<Rightarrow> promptLines ms
      | Some a \<Rightarrow>
          (case content m of
             None \<Rightarrow> promptLines ms
           | Some c \<Rightarrow> if c = [] then promptLines ms else (username a @ '': '' @ trim c) # promptLines ms))"

subsection \<open>Example environments\<close>

text \<open>A network that answers every request with HTTP 429 and the given \<open>Retry-After\<close> header.\<close>

definition env429 :: "string option \<Rightarrow> env" where
  "env429 h = \<lparr>apiBase = ''https://discord.com/api/v9'',
     fetch = (\<lambda>n url token. Inr \<lparr>status = 429, retryAfterHeader = h, json = Inr []\<rparr>),
     parseDate = (\<lambda>s. InvalidDate), now = Date 1700000000000\<rparr>"

text \<open>
  A clock format for the examples: a timestamp is the decimal numeral of its time value.
  \<open>demoEnv\<close> answers every request with one page of five messages, newest first, two of
  which share an id; \<open>offlineEnv\<close> rejects every request.
\<close>

definition demoParse :: "string \<Rightarrow> js_date" where
  "demoParse str = (case stringToBigInt str of None \<Rightarrow> InvalidDate | Some n \<Rightarrow> newDate n)"

definition demoMessage :: "string \<Rightarrow> string \<Rightarrow> message" where
  "demoMessage i ts =
     \<lparr>id_msg = i, author = Some \<lparr>username = ''a''\<rparr>, content = Some ''hi'', timestamp = ts\<rparr>"

definition demoPage :: "message list" where
  "demoPage =
     [demoMessage ''1003'' ''1700000030000'', demoMessage ''1002'' ''1700000020000'',
      demoMessage ''1002'' ''1700000025000'', demoMessage ''1001'' ''1700000005000'',
      demoMessage ''1000'' ''1700000015000'']"

definition demoEnv :: env where
  "demoEnv =
     \<lparr>apiBase = ''https://discord.com/api/v9'',
      fetch = (\<lambda>n url token. Inr \<lparr>status = 200, retryAfterHeader = None, json = Inr demoPage\<rparr>),
      parseDate = demoParse, now = Date 1700000000000\<rparr>"

definition offlineEnv :: env where
  "offlineEnv =
     \<lparr>apiBase = ''https://discord.com/api/v9'',
      fetch = (\<lambda>n url token. Inl (JsError TypeError ''Failed to fetch'')),
      parseDate = demoParse, now = Date 1700000000000\<rparr>"

text \<open>
  \<open>pagedEnv\<close> answers the first request with a full page, a hundred copies of one
  message, and every later request with a page of three that holds the same id again, with
  another timestamp, and an old message.
\<close>

definition pagedEnv :: env where
  "pagedEnv =
     \<lparr>apiBase = ''https://discord.com/api/v9'',
      fetch = (\<lambda>n url token. Inr \<lparr>status = 200, retryAfterHeader = None,
         json = Inr (if n = 0 then replicate 100 (demoMessage ''1003'' ''1700000030000'')
                     else [demoMessage ''1003'' ''1700000031000'',
                           demoMessage ''1002'' ''1700000020000'',
                           demoMessage ''1001'' ''1700000005000''])\<rparr>),
      parseDate = demoParse, now = Date 1700000000000\<rparr>"

section \<open>The codec: decimal numerals and the round trip\<close>

lemma isDigit10_iff: "isDigit 10 c \<longleftrightarrow> 48 \<le> (of_char c :: int) \<and> (of_char c :: int) \<le> 57"
  by (auto simp: isDigit_def digitOf_def Let_def)

lemma of_char_digitChar: "0 \<le> d \<Longrightarrow> d < 10 \<Longrightarrow> (of_char (digitChar d) :: int) = 48 + d"
  by (simp add: digitChar_def)

lemma digitOf_digitChar: "0 \<le> d \<Longrightarrow> d < 10 \<Longrightarrow> digitOf (digitChar d) = Some d"
  by (simp add: digitOf_def of_char_digitChar Let_def)

lemma isDigit_digitChar: "0 \<le> d \<Longrightarrow> d < 10 \<Longrightarrow> isDigit 10 (digitChar d)"
  by (simp add: isDigit_def digitOf_digitChar)

lemma numeralValue_append:
  "numeralValue r acc (xs @ ys) =
     (case numeralValue r acc xs of None \<Rightarrow> None | Some v \<Rightarrow> numeralValue r v ys)"
  by (induction xs arbitrary: acc) (auto split: option.splits)

lemma numeralValue_decimalDigits: "0 \<le> n \<Longrightarrow> numeralValue 10 0 (decimalDigits n) = Some n"
proof (induction n rule: decimalDigits.induct)
  case (1 n)
  show ?case
  proof (cases "n < 10")
    case True
    with 1(2) show ?thesis
      by (subst decimalDigits.simps) (simp add: digitOf_digitChar)
  next
    case False
    have "0 \<le> n mod 10" "n mod 10 < 10" "0 \<le> n div 10" using 1(2) by simp_all
    with False 1 show ?thesis
      by (subst decimalDigits.simps) (simp add: numeralValue_append digitOf_digitChar)
  qed
qed

lemma decimalDigits_digits: "0 \<le> n \<Longrightarrow> c \<in> set (decimalDigits n) \<Longrightarrow> isDigit 10 c"
proof (induction n rule: decimalDigits.induct)
  case (1 n)
  show ?case
  proof (cases "n < 10")
    case True
    with 1(2,3) show ?thesis
      by (subst (asm) decimalDigits.simps) (simp add: isDigit_digitChar)
  next
    case False
    have "0 \<le> n mod 10" "n mod 10 < 10" "0 \<le> n div 10" using 1(2) by simp_all
    with False 1 show ?thesis
      by (subst (asm) (2) decimalDigits.simps) (auto simp: isDigit_digitChar)
  qed
qed

lemma decimalDigits_nonempty: "decimalDigits n \<noteq> []"
  by (subst decimalDigits.simps) simp

lemma digit_not_white: "isDigit 10 c \<Longrightarrow> \<not> isWhiteSpace c"
  by (auto simp: isDigit10_iff isWhiteSpace_def)

lemma trim_id: "s \<noteq> [] \<Longrightarrow> \<not> isWhiteSpace (hd s) \<Longrightarrow> \<not> isWhiteSpace (last s) \<Longrightarrow> trim s = s"
proof -
  assume a: "s \<noteq> []" "\<not> isWhiteSpace (hd s)" "\<not> isWhiteSpace (last s)"
  then have 1: "dropWhile isWhiteSpace s = s" by (simp add: dropWhile_eq_self_iff)
  from a have "dropWhile isWhiteSpace (rev s) = rev s" by (simp add: dropWhile_eq_self_iff hd_rev)
  with 1 show ?thesis by (simp add: trim_def trimStart_def trimEnd_def)
qed

lemma digit_not_special:
  "isDigit 10 c \<Longrightarrow> c \<noteq> CHR ''x'' \<and> c \<noteq> CHR ''X'' \<and> c \<noteq> CHR ''o'' \<and> c \<noteq> CHR ''O''
     \<and> c \<noteq> CHR ''b'' \<and> c \<noteq> CHR ''B'' \<and> c \<noteq> CHR ''+'' \<and> c \<noteq> CHR ''-''"
  by (auto simp: isDigit10_iff)

lemma stringToBigInt_digits:
  assumes "s \<noteq> []" "\<forall>c\<in>set s. isDigit 10 c"
  shows "stringToBigInt s = numeralValue 10 0 s"
proof -
  have "hd s \<in> set s" "last s \<in> set s" using assms(1) by auto
  then have t: "trim s = s" using assms by (intro trim_id) (auto dest: digit_not_white)
  show ?thesis
  proof (cases s)
    case Nil with assms show ?thesis by simp
  next
    case (Cons c s')
    show ?thesis
    proof (cases s')
      case Nil
      with Cons t show ?thesis by (simp add: stringToBigInt_def digitsValue_def)
    next
      case (Cons d cs)
      with \<open>s = c # s'\<close> assms have "isDigit 10 c" "isDigit 10 d" by auto
      then show ?thesis using t Cons \<open>s = c # s'\<close>
        by (auto simp: stringToBigInt_def digitsValue_def dest!: digit_not_special)
    qed
  qed
qed

lemma stringToBigInt_neg_digits:
  assumes "s \<noteq> []" "\<forall>c\<in>set s. isDigit 10 c"
  shows "stringToBigInt (CHR ''-'' # s) = map_option uminus (numeralValue 10 0 s)"
proof -
  have "last s \<in> set s" using assms(1) by auto
  then have "\<not> isWhiteSpace (last s)" using assms by (auto dest: digit_not_white)
  moreover have "\<not> isWhiteSpace (CHR ''-'')" by (simp add: isWhiteSpace_def)
  ultimately have t: "trim (CHR ''-'' # s) = CHR ''-'' # s" using assms(1) by (intro trim_id) auto
  show ?thesis using assms(1) t
    by (cases s) (auto simp: stringToBigInt_def digitsValue_def)
qed

lemma stringToBigInt_bigIntToString: "stringToBigInt (bigIntToString n) = Some n"
proof (cases "n < 0")
  case True
  then have nn: "0 \<le> - n" by simp
  have d: "\<forall>c\<in>set (decimalDigits (- n)). isDigit 10 c"
    using decimalDigits_digits [OF nn] by blast
  have "stringToBigInt (CHR ''-'' # decimalDigits (- n)) = map_option uminus (Some (- n))"
    using stringToBigInt_neg_digits [OF decimalDigits_nonempty d] numeralValue_decimalDigits [OF nn]
    by simp
  with True show ?thesis by (simp add: bigIntToString_def)
next
  case False
  then have nn: "0 \<le> n" by simp
  have d: "\<forall>c\<in>set (decimalDigits n). isDigit 10 c"
    using decimalDigits_digits [OF nn] by blast
  have "stringToBigInt (decimalDigits n) = Some n"
    using stringToBigInt_digits [OF decimalDigits_nonempty d] numeralValue_decimalDigits [OF nn]
    by simp
  with False show ?thesis by (simp add: bigIntToString_def)
qed

lemma bigIntToString_nonempty: "bigIntToString n \<noteq> []"
  by (simp add: bigIntToString_def decimalDigits_nonempty)

lemma snowflakeToDate_encode:
  "snowflakeToDate (bigIntToString (push_bit 22 (t - DISCORD_EPOCH))) = Inr (if \<bar>t\<bar> \<le> MAX_TIME then Some (Date t) else None)"
  by (simp add: snowflakeToDate_def snowflakeToDate_try_def BigInt_of_string_def
      stringToBigInt_bigIntToString bigIntToString_nonempty newDate_def Let_def push_bit_eq_mult drop_bit_eq_div)

section \<open>The walk: one iteration and the whole run\<close>

lemma scanMessages_eq:
  "scanMessages p f t page s =
     s\<lparr>allMessages := foldl setMessage (allMessages s) (accepted p f t page),
       hitOldMessage := hitOldMessage s \<or> (\<exists>m\<in>set page. isOld p f m)\<rparr>"
  by (induction page arbitrary: s) (auto simp: accepted_def)

lemma messagesLoop_stop:
  "\<not> loopCond mp s \<Longrightarrow> messagesLoop e ch tok f t mp s = (s, None)"
  by (subst messagesLoop.simps) (auto simp: loopCond_def)

lemma messagesLoop_fail:
  "loopCond mp s \<Longrightarrow> fetchMessagesPage e (length (fetched s)) ch tok (currentBefore s) None = Inl err
   \<Longrightarrow> messagesLoop e ch tok f t mp s = (s\<lparr>fetched := fetched s @ [(currentBefore s, Inl err)]\<rparr>, Some err)"
  by (subst messagesLoop.simps) (auto simp: loopCond_def)

lemma messagesLoop_last:
  "loopCond mp s \<Longrightarrow> fetchMessagesPage e (length (fetched s)) ch tok (currentBefore s) None = Inr page
   \<Longrightarrow> (\<exists>m\<in>set page. isOld (parseDate e) f m) \<or> length page \<noteq> 100
   \<Longrightarrow> messagesLoop e ch tok f t mp s = (lastState (parseDate e) f t page s, None)"
  apply (subst messagesLoop.simps)
  apply (cases s)
  apply (cases "page = []")
   apply (simp add: loopCond_def Let_def messagesLoop_stop accepted_def lastState_def)
  apply (auto simp: loopCond_def Let_def messagesLoop_stop scanMessages_eq lastState_def)
  done

lemma messagesLoop_more:
  "loopCond mp s \<Longrightarrow> fetchMessagesPage e (length (fetched s)) ch tok (currentBefore s) None = Inr page
   \<Longrightarrow> \<forall>m\<in>set page. \<not> isOld (parseDate e) f m \<Longrightarrow> length page = 100
   \<Longrightarrow> messagesLoop e ch tok f t mp s = messagesLoop e ch tok f t mp (nextState (parseDate e) f t page s)"
  apply (subst messagesLoop.simps)
  apply (cases s)
  apply (cases "page = []")
   apply simp
  apply (simp add: loopCond_def Let_def scanMessages_eq nextState_def)
  done

lemma messagesLoop_induct2 [case_names stop fail last more]:
  assumes stop: "\<And>s. \<not> loopCond mp s \<Longrightarrow> P s (s, None)"
    and fail: "\<And>s err. loopCond mp s
        \<Longrightarrow> fetchMessagesPage e (length (fetched s)) ch tok (currentBefore s) None = Inl err
        \<Longrightarrow> P s (s\<lparr>fetched := fetched s @ [(currentBefore s, Inl err)]\<rparr>, Some err)"
    and last: "\<And>s page. loopCond mp s
        \<Longrightarrow> fetchMessagesPage e (length (fetched s)) ch tok (currentBefore s) None = Inr page
        \<Longrightarrow> (\<exists>m\<in>set page. isOld (parseDate e) f m) \<or> length page \<noteq> 100
        \<Longrightarrow> P s (lastState (parseDate e) f t page s, None)"
    and more: "\<And>s page. loopCond mp s
        \<Longrightarrow> fetchMessagesPage e (length (fetched s)) ch tok (currentBefore s) None = Inr page
        \<Longrightarrow> \<forall>m\<in>set page. \<not> isOld (parseDate e) f m \<Longrightarrow> length page = 100
        \<Longrightarrow> P (nextState (parseDate e) f t page s)
              (messagesLoop e ch tok f t mp (nextState (parseDate e) f t page s))
        \<Longrightarrow> P s (messagesLoop e ch tok f t mp (nextState (parseDate e) f t page s))"
  shows "P s (messagesLoop e ch tok f t mp s)"
proof (induction "nat (mp - pageCount s)" arbitrary: s rule: less_induct)
  case less
  show ?case
  proof (cases "loopCond mp s")
    case False
    then show ?thesis using stop by (simp add: messagesLoop_stop)
  next
    case True
    show ?thesis
    proof (cases "fetchMessagesPage e (length (fetched s)) ch tok (currentBefore s) None")
      case (Inl err)
      with True show ?thesis using fail by (simp add: messagesLoop_fail)
    next
      case (Inr page)
      show ?thesis
      proof (cases "(\<exists>m\<in>set page. isOld (parseDate e) f m) \<or> length page \<noteq> 100")
        case c: True
        with True Inr show ?thesis using last by (simp add: messagesLoop_last)
      next
        case c: False
        have "nat (mp - pageCount (nextState (parseDate e) f t page s)) < nat (mp - pageCount s)"
          using True by (simp add: nextState_def loopCond_def)
        then have "P (nextState (parseDate e) f t page s)
              (messagesLoop e ch tok f t mp (nextState (parseDate e) f t page s))"
          by (rule less)
        with True Inr c show ?thesis using more [of s page] by (simp add: messagesLoop_more)
      qed
    qed
  qed
qed

lemma writes_simps:
  "writes p f t [] = []"
  "writes p f t ((c, Inl err) # tr) = writes p f t tr"
  "writes p f t ((c, Inr page) # tr) = accepted p f t page @ writes p f t tr"
  by (simp_all add: writes_def)

lemma messagesLoop_runs: "\<exists>new. runs e ch tok f t mp s new (messagesLoop e ch tok f t mp s)"
proof (induction s rule: messagesLoop_induct2 [where e = e and ch = ch and tok = tok and f = f and t = t and mp = mp])
  case (stop s)
  then have "runs e ch tok f t mp s [] (s, None)"
    by (simp add: runs_def writes_simps lastError_def)
  then show ?case ..
next
  case (fail s err)
  then have "runs e ch tok f t mp s [(currentBefore s, Inl err)]
     (s\<lparr>fetched := fetched s @ [(currentBefore s, Inl err)]\<rparr>, Some err)"
    by (simp add: runs_def writes_simps lastError_def loopCond_def)
  then show ?case ..
next
  case (last s page)
  then have "runs e ch tok f t mp s [(currentBefore s, Inr page)]
     (lastState (parseDate e) f t page s, None)"
    by (simp add: runs_def writes_simps lastError_def loopCond_def lastState_def)
  then show ?case ..
next
  case (more s page)
  then obtain new where n: "runs e ch tok f t mp (nextState (parseDate e) f t page s) new
      (messagesLoop e ch tok f t mp (nextState (parseDate e) f t page s))" by blast
  have "runs e ch tok f t mp s ((currentBefore s, Inr page) # new)
      (messagesLoop e ch tok f t mp (nextState (parseDate e) f t page s))"
    using n more(1-4)
    by (auto simp: runs_def writes_simps lastError_def loopCond_def nextState_def fullFresh_def)
  then show ?case ..
qed

section \<open>Helper facts\<close>

lemma dateToDiscordSnowflake_returns: "\<exists>r. dateToDiscordSnowflake parse date = Inr r"
  by (simp add: dateToDiscordSnowflake_def split: sum.splits)

lemma snowflakeToDate_returns: "\<exists>r. snowflakeToDate snowflake = Inr r"
  by (simp add: snowflakeToDate_def split: sum.splits)

lemma dateToDiscordSnowflake_invalid:
  "date_of_arg parse date = InvalidDate \<Longrightarrow> dateToDiscordSnowflake parse date = Inr None"
  by (simp add: dateToDiscordSnowflake_def dateToDiscordSnowflake_try_def BigInt_of_number_def)

lemma keepMessage_simps:
  "keepMessage None = False"
  "keepMessage (Some m) = (author m \<noteq> None \<and> content m \<noteq> None \<and> content m \<noteq> Some [])"
  by (auto simp: keepMessage_def split: option.splits)

lemma renderMessage_Some:
  "author m = Some a \<Longrightarrow> content m = Some c \<Longrightarrow> renderMessage (Some m) = Inr (username a @ '': '' @ trim c)"
  by (simp add: renderMessage_def)

lemma mapThrowing_render:
  "mapThrowing renderMessage (filter keepMessage messages) = Inr (promptLines messages)"
proof (induction messages)
  case Nil
  show ?case by simp
next
  case (Cons msg messages)
  show ?case
  proof (cases msg)
    case None
    with Cons show ?thesis by (simp add: keepMessage_simps)
  next
    case (Some m)
    show ?thesis
    proof (cases "keepMessage (Some m)")
      case True
      then obtain a c where "author m = Some a" "content m = Some c" "c \<noteq> []"
        by (auto simp: keepMessage_simps)
      with Cons Some True show ?thesis by (simp add: renderMessage_Some)
    next
      case False
      with Cons Some show ?thesis by (auto simp: keepMessage_simps split: option.splits)
    qed
  qed
qed

lemma handleResponse_429:
  "status response = 429 \<Longrightarrow>
     handleResponse response =
       Inl (RateLimitObject 429
              (case retryAfterHeader response of
                 None \<Rightarrow> 5
               | Some h \<Rightarrow> (case parseInt10 h of None \<Rightarrow> 5 | Some n \<Rightarrow> if n = 0 then 5 else n))
              ''Rate limited by Discord API'')"
proof -
  have 5: "parseInt10 ''5'' = Some 5" by code_simp
  have e: "parseInt10 [] = None" by code_simp
  assume "status response = 429"
  then show ?thesis
    by (auto simp: handleResponse_def ok_def 5 e split: option.splits)
qed

lemma walk_eq:
  "walk e ch tok f to mp =
     messagesLoop e ch tok f (effectiveTo e to) (pageLimit mp) (initialState (initialCursor e to))"
proof -
  obtain r where "dateToDiscordSnowflake (parseDate e) (DateArg (effectiveTo e to)) = Inr r"
    using dateToDiscordSnowflake_returns by blast
  then show ?thesis
    by (simp add: walk_def initialCursor_def pageLimit_def Let_def)
qed

lemma walk_runs:
  "runs e ch tok f (effectiveTo e to) (pageLimit mp) (initialState (initialCursor e to))
     (fetched (fst (walk e ch tok f to mp))) (walk e ch tok f to mp)"
proof -
  obtain new where n: "runs e ch tok f (effectiveTo e to) (pageLimit mp)
      (initialState (initialCursor e to)) new (walk e ch tok f to mp)"
    using messagesLoop_runs [of e ch tok f "effectiveTo e to" "pageLimit mp"] by (auto simp: walk_eq)
  then have "fetched (fst (walk e ch tok f to mp)) = new"
    by (simp add: runs_def initialState_def)
  with n show ?thesis by simp
qed

lemma walk_allMessages:
  "allMessages (fst (walk e ch tok f to mp)) =
     foldl setMessage [] (writes (parseDate e) f (effectiveTo e to) (fetched (fst (walk e ch tok f to mp))))"
  using walk_runs [of e ch tok f to mp] by (simp add: runs_def initialState_def)

lemma walk_length: "int (length (fetched (fst (walk e ch tok f to mp)))) \<le> max 0 (pageLimit mp)"
  using walk_runs [of e ch tok f to mp] by (simp add: runs_def initialState_def)

lemma walk_faithful: "faithful e ch tok 0 (fetched (fst (walk e ch tok f to mp)))"
  using walk_runs [of e ch tok f to mp] by (simp add: runs_def initialState_def)

lemma walk_fullFresh:
  "x \<in> set (butlast (fetched (fst (walk e ch tok f to mp)))) \<Longrightarrow> fullFresh (parseDate e) f x"
  using walk_runs [of e ch tok f to mp] by (simp add: runs_def)

lemma walk_error: "snd (walk e ch tok f to mp) = lastError (fetched (fst (walk e ch tok f to mp)))"
  using walk_runs [of e ch tok f to mp] by (simp add: runs_def)

lemma walk_first:
  "0 < pageLimit mp \<Longrightarrow> fetched (fst (walk e ch tok f to mp)) \<noteq> []
     \<and> fst (hd (fetched (fst (walk e ch tok f to mp)))) = initialCursor e to"
  using walk_runs [of e ch tok f to mp] by (simp add: runs_def initialState_def loopCond_def)

lemma faithful_nth:
  "faithful e ch tok n tr \<Longrightarrow> i < length tr
   \<Longrightarrow> snd (tr ! i) = fetchMessagesPage e (n + i) ch tok (fst (tr ! i)) None"
proof (induction tr arbitrary: n i)
  case Nil
  then show ?case by simp
next
  case (Cons x tr)
  then show ?case by (cases i) auto
qed

lemma writes_subset:
  "m \<in> set (writes p f t tr) \<Longrightarrow> \<exists>c page. (c, Inr page) \<in> set tr \<and> m \<in> set (accepted p f t page)"
proof (induction tr)
  case Nil
  then show ?case by (simp add: writes_simps)
next
  case (Cons x tr)
  obtain c r where x: "x = (c, r)" by (cases x)
  show ?case
  proof (cases r)
    case (Inl err)
    with Cons x show ?thesis by (auto simp: writes_simps)
  next
    case (Inr page)
    with Cons x show ?thesis by (auto simp: writes_simps)
  qed
qed

lemma accepted_inWindow: "m \<in> set (accepted p f t page) \<Longrightarrow> inWindow p f t m \<and> m \<in> set page"
  by (auto simp: accepted_def dest: set_takeWhileD)

lemma set_setMessage: "set (setMessage al m) \<subseteq> insert (id_msg m, m) (set al)"
  unfolding setMessage_def by (induction al) auto

lemma set_foldl_setMessage:
  "x \<in> set (foldl setMessage al ws) \<Longrightarrow> x \<in> set al \<or> (\<exists>w\<in>set ws. x = (id_msg w, w))"
proof (induction ws arbitrary: al)
  case Nil
  then show ?case by simp
next
  case (Cons w ws)
  from Cons.IH [of "setMessage al w"] Cons.prems
  have "x \<in> set (setMessage al w) \<or> (\<exists>w\<in>set ws. x = (id_msg w, w))" by simp
  then show ?case using set_setMessage [of al w] by auto
qed

lemma distinct_foldl_setMessage:
  "distinct (map fst al) \<Longrightarrow> distinct (map fst (foldl setMessage al ws))"
  by (induction ws arbitrary: al) (simp_all add: setMessage_def distinct_update)

lemma find_append_last:
  "find P (xs @ ys) = (case find P xs of None \<Rightarrow> find P ys | Some x \<Rightarrow> Some x)"
  by (induction xs) simp_all

lemma map_of_foldl_setMessage:
  "map_of (foldl setMessage al ws) k =
     (case find (\<lambda>w. id_msg w = k) (rev ws) of None \<Rightarrow> map_of al k | Some w \<Rightarrow> Some w)"
proof (induction ws arbitrary: al)
  case Nil
  show ?case by simp
next
  case (Cons w ws)
  have step: "map_of (setMessage al w) k = (if id_msg w = k then Some w else map_of al k)"
    by (simp add: setMessage_def update_conv')
  show ?case
    by (simp add: Cons.IH [of "setMessage al w"] find_append_last step split: option.splits)
qed

lemma insertSorted_set: "set (insertSorted cmp x xs) = insert x (set xs)"
  by (induction xs) auto

lemma sortWith_set: "set (sortWith cmp xs) = set xs"
  by (induction xs) (simp_all add: sortWith_def insertSorted_set)

lemma insertSorted_distinct:
  "distinct (map g (insertSorted cmp x xs)) = (g x \<notin> g ` set xs \<and> distinct (map g xs))"
  by (induction xs) (auto simp: insertSorted_set)

lemma sortWith_distinct: "distinct (map g (sortWith cmp xs)) = distinct (map g xs)"
proof (induction xs)
  case Nil
  show ?case by (simp add: sortWith_def)
next
  case (Cons x xs)
  have "sortWith cmp (x # xs) = insertSorted cmp x (sortWith cmp xs)"
    by (simp add: sortWith_def)
  with Cons show ?case by (simp add: insertSorted_distinct sortWith_set)
qed

lemma compare_timeLe:
  "msgTime p a \<noteq> None \<Longrightarrow> msgTime p b \<noteq> None
   \<Longrightarrow> (compareTimestamps p a b \<le> 0) = timeLe p a b"
  by (auto simp: compareTimestamps_def timeLe_def js_le_def)

lemma timeLe_total:
  "msgTime p a \<noteq> None \<Longrightarrow> msgTime p b \<noteq> None \<Longrightarrow> \<not> timeLe p a b \<Longrightarrow> timeLe p b a"
  by (auto simp: timeLe_def js_le_def)

lemma timeLe_trans: "timeLe p a b \<Longrightarrow> timeLe p b c \<Longrightarrow> timeLe p a c"
  by (auto simp: timeLe_def js_le_def split: option.splits)

lemma insertSorted_sorted:
  "msgTime p x \<noteq> None \<Longrightarrow> \<forall>y\<in>set xs. msgTime p y \<noteq> None \<Longrightarrow> sorted_wrt (timeLe p) xs
   \<Longrightarrow> sorted_wrt (timeLe p) (insertSorted (compareTimestamps p) x xs)"
proof (induction xs)
  case Nil
  show ?case by simp
next
  case (Cons y ys)
  show ?case
  proof (cases "compareTimestamps p x y \<le> 0")
    case True
    then have xy: "timeLe p x y" using Cons.prems by (simp add: compare_timeLe)
    then have "\<forall>z\<in>set ys. timeLe p x z" using Cons.prems(3) by (auto intro: timeLe_trans)
    with True xy Cons.prems(3) show ?thesis by simp
  next
    case False
    then have "\<not> timeLe p x y" using Cons.prems by (simp add: compare_timeLe)
    then have yx: "timeLe p y x" using Cons.prems by (simp add: timeLe_total)
    have "sorted_wrt (timeLe p) (insertSorted (compareTimestamps p) x ys)"
      using Cons by simp
    with False yx Cons.prems(3) show ?thesis by (auto simp: insertSorted_set)
  qed
qed

lemma sortWith_sorted:
  "\<forall>y\<in>set xs. msgTime p y \<noteq> None \<Longrightarrow> sorted_wrt (timeLe p) (sortWith (compareTimestamps p) xs)"
proof (induction xs)
  case Nil
  show ?case by (simp add: sortWith_def)
next
  case (Cons x xs)
  then have "sorted_wrt (timeLe p) (sortWith (compareTimestamps p) xs)" by simp
  then have "sorted_wrt (timeLe p) (insertSorted (compareTimestamps p) x (sortWith (compareTimestamps p) xs))"
    using Cons.prems by (intro insertSorted_sorted) (simp_all add: sortWith_set)
  then show ?case by (simp add: sortWith_def)
qed

section \<open>The result of a walk\<close>

lemma getAll_eq:
  "getAllMessagesBetweenDates e ch tok f to mp =
     (case snd (walk e ch tok f to mp) of
        Some error \<Rightarrow> Inl (JsError PlainError (''Failed to fetch messages: '' @ causeText error))
      | None \<Rightarrow> Inr (sortWith (compareTimestamps (parseDate e))
                      (map snd (allMessages (fst (walk e ch tok f to mp))))))"
  by (simp add: getAllMessagesBetweenDates_def split: prod.splits option.splits)

lemma walk_entries:
  "x \<in> set (allMessages (fst (walk e ch tok f to mp)))
   \<Longrightarrow> \<exists>w\<in>set (writes (parseDate e) f (effectiveTo e to) (fetched (fst (walk e ch tok f to mp)))).
         x = (id_msg w, w)"
  using set_foldl_setMessage [of x "[]"] by (simp add: walk_allMessages)

lemma walk_keys:
  "map fst (allMessages (fst (walk e ch tok f to mp)))
     = map id_msg (map snd (allMessages (fst (walk e ch tok f to mp))))"
  using walk_entries [of _ e ch tok f to mp] by (auto simp: map_eq_conv)

lemma walk_distinct: "distinct (map fst (allMessages (fst (walk e ch tok f to mp))))"
  using distinct_foldl_setMessage [of "[]"] by (simp add: walk_allMessages)

lemma result_written:
  assumes "getAllMessagesBetweenDates e ch tok f to mp = Inr r" "m \<in> set r"
  shows "m \<in> set (writes (parseDate e) f (effectiveTo e to) (fetched (fst (walk e ch tok f to mp))))"
proof -
  from assms have "m \<in> snd ` set (allMessages (fst (walk e ch tok f to mp)))"
    by (auto simp: getAll_eq sortWith_set split: option.splits)
  then show ?thesis using walk_entries [of _ e ch tok f to mp] by auto
qed

lemma written_inWindow:
  "m \<in> set (writes p f t tr) \<Longrightarrow> inWindow p f t m"
  using writes_subset [of m p f t tr] accepted_inWindow [of m p f t] by blast

lemma inWindow_times:
  "inWindow p f t m \<Longrightarrow>
     \<exists>tm tf tt. msgTime p m = Some tm \<and> getTime f = Some tf \<and> getTime t = Some tt
        \<and> tf \<le> tm \<and> tm \<le> tt"
  by (auto simp: inWindow_def js_ge_def js_le_def split: option.splits)

lemma inWindow_not_old: "inWindow p f t m \<Longrightarrow> \<not> isOld p f m"
  by (auto simp: inWindow_def isOld_def js_ge_def js_le_def js_lt_def split: option.splits)

lemma accepted_stop:
  "isOld p f m \<Longrightarrow> \<forall>x\<in>set pre. \<not> isOld p f x
   \<Longrightarrow> accepted p f t (pre @ m # rest) = accepted p f t pre"
proof -
  assume o: "isOld p f m" and n: "\<forall>x\<in>set pre. \<not> isOld p f x"
  from n have a: "takeWhile (\<lambda>m. \<not> isOld p f m) pre = pre"
    by (simp add: takeWhile_eq_all_conv)
  from o n have b: "takeWhile (\<lambda>m. \<not> isOld p f m) (pre @ m # rest) = pre"
    by (simp add: takeWhile_append2)
  show ?thesis by (simp only: accepted_def a b)
qed

lemma scanMessages_stop:
  assumes "isOld p f m" "\<forall>x\<in>set pre. \<not> isOld p f x"
  shows "scanMessages p f t (pre @ m # rest) s = (scanMessages p f t pre s)\<lparr>hitOldMessage := True\<rparr>"
  using assms by (simp add: scanMessages_eq accepted_stop)

lemma walk_old_is_last:
  assumes "i < length (fetched (fst (walk e ch tok f to mp)))"
    and "snd (fetched (fst (walk e ch tok f to mp)) ! i) = Inr page"
    and "\<exists>m\<in>set page. isOld (parseDate e) f m"
  shows "Suc i = length (fetched (fst (walk e ch tok f to mp)))"
proof (rule ccontr)
  let ?tr = "fetched (fst (walk e ch tok f to mp))"
  assume "Suc i \<noteq> length ?tr"
  with assms(1) have "i < length (butlast ?tr)" by simp
  then have "?tr ! i \<in> set (butlast ?tr)"
    by (metis nth_butlast nth_mem)
  then have "fullFresh (parseDate e) f (?tr ! i)" by (rule walk_fullFresh)
  with assms(2,3) show False by (simp add: fullFresh_def)
qed

lemma writes_empty:
  "\<forall>x\<in>set tr. \<forall>page. snd x = Inr page \<longrightarrow> (\<forall>m\<in>set page. \<not> inWindow p f t m)
   \<Longrightarrow> writes p f t tr = []"
proof (induction tr)
  case Nil
  show ?case by (simp add: writes_simps)
next
  case (Cons x tr)
  obtain c r where x: "x = (c, r)" by (cases x)
  show ?case
  proof (cases r)
    case (Inl err)
    with Cons x show ?thesis by (simp add: writes_simps)
  next
    case (Inr page)
    with Cons.prems x have "\<forall>m\<in>set page. \<not> inWindow p f t m" by simp
    then have "accepted p f t page = []"
      by (auto simp: accepted_def filter_empty_conv dest: set_takeWhileD)
    with Cons x Inr show ?thesis by (simp add: writes_simps)
  qed
qed

lemma lastError_None: "\<forall>x\<in>set tr. \<exists>page. snd x = Inr page \<Longrightarrow> lastError tr = None"
proof (cases "tr = []")
  case True
  then show ?thesis by (simp add: lastError_def)
next
  case False
  assume "\<forall>x\<in>set tr. \<exists>page. snd x = Inr page"
  with False obtain page where "snd (last tr) = Inr page" using last_in_set by blast
  with False show ?thesis by (simp add: lastError_def)
qed

lemma walk_empty_window:
  assumes "\<forall>x\<in>set (fetched (fst (walk e ch tok f to mp))).
     \<exists>page. snd x = Inr page \<and> (\<forall>m\<in>set page. \<not> inWindow (parseDate e) f (effectiveTo e to) m)"
  shows "getAllMessagesBetweenDates e ch tok f to mp = Inr []"
proof -
  let ?tr = "fetched (fst (walk e ch tok f to mp))"
  from assms have "\<forall>x\<in>set ?tr. \<exists>page. snd x = Inr page" by blast
  then have 1: "snd (walk e ch tok f to mp) = None"
    by (simp add: walk_error lastError_None)
  from assms have "writes (parseDate e) f (effectiveTo e to) ?tr = []"
    by (intro writes_empty) auto
  then have "allMessages (fst (walk e ch tok f to mp)) = []"
    using walk_allMessages [of e ch tok f to mp] by simp
  with 1 show ?thesis by (simp add: getAll_eq sortWith_def)
qed

lemma walk_trace_nth:
  "i < length (fetched (fst (walk e ch tok f to mp)))
   \<Longrightarrow> snd (fetched (fst (walk e ch tok f to mp)) ! i)
       = fetchMessagesPage e i ch tok (fst (fetched (fst (walk e ch tok f to mp)) ! i)) None"
  using faithful_nth [OF walk_faithful, of i e ch tok f to mp] by simp

lemma walk_failure_is_last:
  assumes "i < length (fetched (fst (walk e ch tok f to mp)))"
    and "fetchMessagesPage e i ch tok (fst (fetched (fst (walk e ch tok f to mp)) ! i)) None = Inl err"
  shows "Suc i = length (fetched (fst (walk e ch tok f to mp)))"
    and "snd (walk e ch tok f to mp) = Some err"
proof -
  let ?tr = "fetched (fst (walk e ch tok f to mp))"
  from assms have e: "snd (?tr ! i) = Inl err" by (simp add: walk_trace_nth)
  show l: "Suc i = length ?tr"
  proof (rule ccontr)
    assume "Suc i \<noteq> length ?tr"
    with assms(1) have "i < length (butlast ?tr)" by simp
    then have "?tr ! i \<in> set (butlast ?tr)" by (metis nth_butlast nth_mem)
    then have "fullFresh (parseDate e) f (?tr ! i)" by (rule walk_fullFresh)
    with e show False by (simp add: fullFresh_def)
  qed
  from l have ne: "?tr \<noteq> []" by auto
  from l have "length ?tr - 1 = i" by simp
  with ne have "last ?tr = ?tr ! i" by (simp add: last_conv_nth)
  with ne e show "snd (walk e ch tok f to mp) = Some err"
    by (simp add: walk_error lastError_def)
qed

lemma walk_one_page:
  assumes "fetchMessagesPage e 0 ch tok (initialCursor e to) None = Inr page"
  shows "fetched (fst (walk e ch tok f to (Some 1))) = [(initialCursor e to, Inr page)]"
proof -
  let ?tr = "fetched (fst (walk e ch tok f to (Some 1)))"
  have "int (length ?tr) \<le> 1" using walk_length [of e ch tok f to "Some 1"] by (simp add: pageLimit_def)
  moreover have n: "?tr \<noteq> []" and h: "fst (hd ?tr) = initialCursor e to"
    using walk_first [of "Some 1" e ch tok f to] by (simp_all add: pageLimit_def)
  ultimately have l: "length ?tr = 1" by (cases ?tr) auto
  then obtain x where x: "?tr = [x]" by (cases ?tr) auto
  with h have "fst x = initialCursor e to" by simp
  moreover have "snd x = Inr page"
    using walk_trace_nth [of 0 e ch tok f to "Some 1"] x assms h by simp
  ultimately show ?thesis using x by (cases x) simp
qed

lemma getAll_no_failure:
  "\<forall>x\<in>set (fetched (fst (walk e ch tok f to mp))). \<exists>page. snd x = Inr page
   \<Longrightarrow> getAllMessagesBetweenDates e ch tok f to mp =
       Inr (sortWith (compareTimestamps (parseDate e))
              (map snd (foldl setMessage []
                 (writes (parseDate e) f (effectiveTo e to) (fetched (fst (walk e ch tok f to mp)))))))"
  by (simp add: getAll_eq walk_error lastError_None walk_allMessages [symmetric])

lemma inWindow_invalid_to: "\<not> inWindow p f InvalidDate m"
  by (simp add: inWindow_def js_le_def split: option.splits)

lemma writes_invalid_to: "writes p f InvalidDate tr = []"
  by (rule writes_empty) (simp add: inWindow_invalid_to)

lemma demo_result:
  "getAllMessagesBetweenDates demoEnv ''42'' ''token'' (Date 1700000010000)
      (Some (Date 1700000040000)) None
     = Inr [demoMessage ''1002'' ''1700000025000'', demoMessage ''1003'' ''1700000030000'']"
  by code_simp

lemma demo_trace:
  "fetched (fst (walk demoEnv ''42'' ''token'' (Date 1700000010000) (Some (Date 1700000040000)) None))
     = [(Some ''1174110008770560000'', Inr demoPage)]"
  by code_simp

lemma demo_fetch: "fetchMessagesPage demoEnv n channelId userToken c None = Inr demoPage"
  by (simp add: fetchMessagesPage_def demoEnv_def handleResponse_def ok_def)

lemma demo_split:
  "demoPage = [demoMessage ''1003'' ''1700000030000'', demoMessage ''1002'' ''1700000020000'',
      demoMessage ''1002'' ''1700000025000''] @ demoMessage ''1001'' ''1700000005000''
      # [demoMessage ''1000'' ''1700000015000'']"
  by (simp add: demoPage_def)

lemma paged_result:
  "getAllMessagesBetweenDates pagedEnv ''42'' ''token'' (Date 1700000010000)
      (Some (Date 1700000040000)) None
     = Inr [demoMessage ''1002'' ''1700000020000'', demoMessage ''1003'' ''1700000031000'']"
  by code_simp

lemma paged_trace:
  "fetched (fst (walk pagedEnv ''42'' ''token'' (Date 1700000010000)
      (Some (Date 1700000040000)) None))
     = [(Some ''1174110008770560000'', Inr (replicate 100 (demoMessage ''1003'' ''1700000030000''))),
        (Some ''1003'', Inr [demoMessage ''1003'' ''1700000031000'',
                           demoMessage ''1002'' ''1700000020000'',
                           demoMessage ''1001'' ''1700000005000''])]"
  by code_simp

lemma paged_fetch:
  "fetchMessagesPage pagedEnv 0 channelId userToken c None
     = Inr (replicate 100 (demoMessage ''1003'' ''1700000030000''))"
  by (simp add: fetchMessagesPage_def pagedEnv_def handleResponse_def ok_def)

section \<open>The claims\<close>

text \<open>
  Claim C1. Every message that \<open>getAllMessagesBetweenDates\<close> returns has a valid time
  between \<open>fromDate\<close> and the effective end date, both inclusive, and is not older than
  \<open>fromDate\<close>. The scan of a page stops at its first old message, whatever follows it in
  the page. In the trace of a run, a page that holds an old message is the last one
  fetched. When every page fetched arrives and holds no message in the window, the result
  is the empty list, not an error.
\<close>

theorem window_bounds_and_early_stop:
  "(getAllMessagesBetweenDates e channelId userToken fromDate toDate maxPages = Inr r \<longrightarrow>
      (\<forall>m\<in>set r. \<not> isOld (parseDate e) fromDate m
          \<and> (\<exists>tm tf tt. msgTime (parseDate e) m = Some tm \<and> getTime fromDate = Some tf
                \<and> getTime (effectiveTo e toDate) = Some tt \<and> tf \<le> tm \<and> tm \<le> tt)))
   \<and> (isOld parse fromDate old \<longrightarrow> (\<forall>x\<in>set pre. \<not> isOld parse fromDate x) \<longrightarrow>
        scanMessages parse fromDate effectiveToDate (pre @ old # rest) s
          = (scanMessages parse fromDate effectiveToDate pre s)\<lparr>hitOldMessage := True\<rparr>)
   \<and> (i < length (fetched (fst (walk e channelId userToken fromDate toDate maxPages))) \<longrightarrow>
        snd (fetched (fst (walk e channelId userToken fromDate toDate maxPages)) ! i) = Inr page \<longrightarrow>
        (\<exists>m\<in>set page. isOld (parseDate e) fromDate m) \<longrightarrow>
        Suc i = length (fetched (fst (walk e channelId userToken fromDate toDate maxPages))))
   \<and> ((\<forall>x\<in>set (fetched (fst (walk e channelId userToken fromDate toDate maxPages))).
          \<exists>page. snd x = Inr page
             \<and> (\<forall>m\<in>set page. \<not> inWindow (parseDate e) fromDate (effectiveTo e toDate) m)) \<longrightarrow>
        getAllMessagesBetweenDates e channelId userToken fromDate toDate maxPages = Inr [])"
proof (intro conjI impI ballI)
  fix m
  assume "getAllMessagesBetweenDates e channelId userToken fromDate toDate maxPages = Inr r" "m \<in> set r"
  then have w: "inWindow (parseDate e) fromDate (effectiveTo e toDate) m"
    using result_written written_inWindow by blast
  then show "\<not> isOld (parseDate e) fromDate m" by (rule inWindow_not_old)
  from w show "\<exists>tm tf tt. msgTime (parseDate e) m = Some tm \<and> getTime fromDate = Some tf
                \<and> getTime (effectiveTo e toDate) = Some tt \<and> tf \<le> tm \<and> tm \<le> tt"
    by (rule inWindow_times)
next
  assume "isOld parse fromDate old" "\<forall>x\<in>set pre. \<not> isOld parse fromDate x"
  then show "scanMessages parse fromDate effectiveToDate (pre @ old # rest) s
          = (scanMessages parse fromDate effectiveToDate pre s)\<lparr>hitOldMessage := True\<rparr>"
    by (rule scanMessages_stop)
next
  assume "i < length (fetched (fst (walk e channelId userToken fromDate toDate maxPages)))"
    "snd (fetched (fst (walk e channelId userToken fromDate toDate maxPages)) ! i) = Inr page"
    "\<exists>m\<in>set page. isOld (parseDate e) fromDate m"
  then show "Suc i = length (fetched (fst (walk e channelId userToken fromDate toDate maxPages)))"
    by (rule walk_old_is_last)
next
  assume "\<forall>x\<in>set (fetched (fst (walk e channelId userToken fromDate toDate maxPages))).
          \<exists>page. snd x = Inr page
             \<and> (\<forall>m\<in>set page. \<not> inWindow (parseDate e) fromDate (effectiveTo e toDate) m)"
  then show "getAllMessagesBetweenDates e channelId userToken fromDate toDate maxPages = Inr []"
    by (rule walk_empty_window)
qed

theorem window_bounds_and_early_stop_witness:
  "getAllMessagesBetweenDates demoEnv ''42'' ''token'' (Date 1700000010000)
      (Some (Date 1700000040000)) None
     = Inr [demoMessage ''1002'' ''1700000025000'', demoMessage ''1003'' ''1700000030000'']
   \<and> \<not> isOld demoParse (Date 1700000010000) (demoMessage ''1002'' ''1700000025000'')
   \<and> \<not> isOld demoParse (Date 1700000010000) (demoMessage ''1003'' ''1700000030000'')
   \<and> isOld demoParse (Date 1700000010000) (demoMessage ''1001'' ''1700000005000'')
   \<and> scanMessages demoParse (Date 1700000010000) (Date 1700000040000) demoPage (initialState None)
       = (scanMessages demoParse (Date 1700000010000) (Date 1700000040000)
            [demoMessage ''1003'' ''1700000030000'', demoMessage ''1002'' ''1700000020000'',
             demoMessage ''1002'' ''1700000025000''] (initialState None))\<lparr>hitOldMessage := True\<rparr>
   \<and> length (fetched (fst (walk demoEnv ''42'' ''token'' (Date 1700000010000)
         (Some (Date 1700000040000)) None))) = 1
   \<and> getAllMessagesBetweenDates demoEnv ''42'' ''token'' (Date 1700000100000)
        (Some (Date 1700000200000)) None = Inr []"
proof -
  note inst = window_bounds_and_early_stop [of demoEnv "''42''" "''token''" "Date 1700000010000"
      "Some (Date 1700000040000)" None
      "[demoMessage ''1002'' ''1700000025000'', demoMessage ''1003'' ''1700000030000'']"
      demoParse "demoMessage ''1001'' ''1700000005000''"
      "[demoMessage ''1003'' ''1700000030000'', demoMessage ''1002'' ''1700000020000'',
        demoMessage ''1002'' ''1700000025000'']"
      "Date 1700000040000" "[demoMessage ''1000'' ''1700000015000'']" "initialState None" 0 demoPage]
  have p: "parseDate demoEnv = demoParse" by (simp add: demoEnv_def)
  have old: "isOld demoParse (Date 1700000010000) (demoMessage ''1001'' ''1700000005000'')"
    by code_simp
  have pre: "\<forall>x\<in>set [demoMessage ''1003'' ''1700000030000'', demoMessage ''1002'' ''1700000020000'',
        demoMessage ''1002'' ''1700000025000'']. \<not> isOld demoParse (Date 1700000010000) x"
    by code_simp
  have inpage: "\<exists>m\<in>set demoPage. isOld demoParse (Date 1700000010000) m"
    using old by (auto simp: demoPage_def)
  have c1: "\<forall>m\<in>set [demoMessage ''1002'' ''1700000025000'', demoMessage ''1003'' ''1700000030000''].
         \<not> isOld demoParse (Date 1700000010000) m"
    using inst [unfolded p] demo_result by blast
  have c2: "scanMessages demoParse (Date 1700000010000) (Date 1700000040000) demoPage (initialState None)
       = (scanMessages demoParse (Date 1700000010000) (Date 1700000040000)
            [demoMessage ''1003'' ''1700000030000'', demoMessage ''1002'' ''1700000020000'',
             demoMessage ''1002'' ''1700000025000''] (initialState None))\<lparr>hitOldMessage := True\<rparr>"
    using inst old pre unfolding demo_split [symmetric] by blast
  have c3: "length (fetched (fst (walk demoEnv ''42'' ''token'' (Date 1700000010000)
         (Some (Date 1700000040000)) None))) = 1"
    using inst inpage by (simp add: demo_trace p)
  have tr2: "fetched (fst (walk demoEnv ''42'' ''token'' (Date 1700000100000)
        (Some (Date 1700000200000)) None)) = [(Some ''1174110679859200000'', Inr demoPage)]"
    by code_simp
  have out: "\<forall>m\<in>set demoPage. \<not> inWindow demoParse (Date 1700000100000) (Date 1700000200000) m"
    by code_simp
  have c4: "getAllMessagesBetweenDates demoEnv ''42'' ''token'' (Date 1700000100000)
        (Some (Date 1700000200000)) None = Inr []"
    using window_bounds_and_early_stop [of demoEnv "''42''" "''token''" "Date 1700000100000"
        "Some (Date 1700000200000)" None] out
    by (simp add: tr2 p effectiveTo_def)
  from c1 have "\<not> isOld demoParse (Date 1700000010000) (demoMessage ''1002'' ''1700000025000'')"
    and "\<not> isOld demoParse (Date 1700000010000) (demoMessage ''1003'' ''1700000030000'')"
    by simp_all
  with demo_result old c2 c3 c4 show ?thesis by blast
qed

text \<open>
  Claim C2. For every valid date, that is every time value within 8.64e15 ms of the Unix
  epoch, \<open>dateToDiscordSnowflake\<close> returns a snowflake, and \<open>snowflakeToDate\<close> of that
  snowflake is the same date, to the millisecond.
\<close>

theorem codec_round_trip:
  "\<bar>t\<bar> \<le> MAX_TIME \<Longrightarrow>
     \<exists>snowflake. dateToDiscordSnowflake parse (DateArg (Date t)) = Inr (Some snowflake)
        \<and> snowflakeToDate snowflake = Inr (Some (Date t))"
  by (simp add: dateToDiscordSnowflake_def dateToDiscordSnowflake_try_def BigInt_of_number_def
      snowflakeToDate_encode Let_def)

theorem codec_round_trip_witness:
  "\<bar>1700000000000\<bar> \<le> MAX_TIME
   \<and> dateToDiscordSnowflake (\<lambda>s. InvalidDate) (DateArg (Date 1700000000000))
        = Inr (Some ''1174109840998400000'')
   \<and> snowflakeToDate ''1174109840998400000'' = Inr (Some (Date 1700000000000))"
proof -
  have h: "\<bar>1700000000000\<bar> \<le> MAX_TIME" by (simp add: MAX_TIME_def)
  have v: "dateToDiscordSnowflake (\<lambda>s. InvalidDate) (DateArg (Date 1700000000000))
        = Inr (Some ''1174109840998400000'')" by code_simp
  from codec_round_trip [OF h, of "\<lambda>s. InvalidDate"] v h show ?thesis by simp
qed

text \<open>
  Claim C3. The list that \<open>getAllMessagesBetweenDates\<close> returns has no two entries with
  the same id; every id that was set into the map during the walk has an entry; and the
  entry of an id is the message of the last \<open>set\<close> call for that id.
\<close>

theorem one_entry_per_id:
  "getAllMessagesBetweenDates e channelId userToken fromDate toDate maxPages = Inr r
   \<Longrightarrow> distinct (map id_msg r)
     \<and> (\<forall>w\<in>set (writes (parseDate e) fromDate (effectiveTo e toDate)
                     (fetched (fst (walk e channelId userToken fromDate toDate maxPages)))).
           \<exists>m\<in>set r. id_msg m = id_msg w)
     \<and> (\<forall>m\<in>set r.
           find (\<lambda>w. id_msg w = id_msg m)
             (rev (writes (parseDate e) fromDate (effectiveTo e toDate)
                     (fetched (fst (walk e channelId userToken fromDate toDate maxPages))))) = Some m)"
proof -
  assume a: "getAllMessagesBetweenDates e channelId userToken fromDate toDate maxPages = Inr r"
  let ?s = "fst (walk e channelId userToken fromDate toDate maxPages)"
  let ?ws = "writes (parseDate e) fromDate (effectiveTo e toDate) (fetched ?s)"
  from a have r: "r = sortWith (compareTimestamps (parseDate e)) (map snd (allMessages ?s))"
    by (auto simp: getAll_eq split: option.splits)
  have look: "map_of (allMessages ?s) k =
      (case find (\<lambda>w. id_msg w = k) (rev ?ws) of None \<Rightarrow> None | Some w \<Rightarrow> Some w)" for k
    by (simp add: walk_allMessages map_of_foldl_setMessage split: option.splits)
  have d: "distinct (map id_msg r)"
    using walk_distinct [of e channelId userToken fromDate toDate maxPages]
    by (simp add: r sortWith_distinct walk_keys)
  have "\<exists>m\<in>set r. id_msg m = id_msg w" if "w \<in> set ?ws" for w
  proof -
    from that have "find (\<lambda>x. id_msg x = id_msg w) (rev ?ws) \<noteq> None"
      by (auto simp: find_None_iff)
    then obtain m where "map_of (allMessages ?s) (id_msg w) = Some m"
      by (auto simp: look)
    then have "(id_msg w, m) \<in> set (allMessages ?s)" by (rule map_of_SomeD)
    moreover from this have "id_msg m = id_msg w"
      using walk_entries [of "(id_msg w, m)" e channelId userToken fromDate toDate maxPages] by auto
    ultimately show ?thesis by (force simp: r sortWith_set)
  qed
  moreover have "find (\<lambda>w. id_msg w = id_msg m) (rev ?ws) = Some m" if "m \<in> set r" for m
  proof -
    from that obtain k where km: "(k, m) \<in> set (allMessages ?s)"
      by (auto simp: r sortWith_set)
    then have "k = id_msg m"
      using walk_entries [of "(k, m)" e channelId userToken fromDate toDate maxPages] by auto
    with km have "map_of (allMessages ?s) (id_msg m) = Some m"
      using walk_distinct [of e channelId userToken fromDate toDate maxPages] by simp
    then show ?thesis by (simp add: look split: option.splits)
  qed
  ultimately show ?thesis using d by blast
qed

theorem one_entry_per_id_witness:
  "getAllMessagesBetweenDates pagedEnv ''42'' ''token'' (Date 1700000010000)
      (Some (Date 1700000040000)) None
     = Inr [demoMessage ''1002'' ''1700000020000'', demoMessage ''1003'' ''1700000031000'']
   \<and> writes demoParse (Date 1700000010000) (Date 1700000040000)
        (fetched (fst (walk pagedEnv ''42'' ''token'' (Date 1700000010000)
           (Some (Date 1700000040000)) None)))
     = replicate 100 (demoMessage ''1003'' ''1700000030000'')
         @ [demoMessage ''1003'' ''1700000031000'', demoMessage ''1002'' ''1700000020000'']
   \<and> distinct (map id_msg [demoMessage ''1002'' ''1700000020000'', demoMessage ''1003'' ''1700000031000''])
   \<and> find (\<lambda>w. id_msg w = ''1003'')
        (rev (replicate 100 (demoMessage ''1003'' ''1700000030000'')
                @ [demoMessage ''1003'' ''1700000031000'', demoMessage ''1002'' ''1700000020000'']))
     = Some (demoMessage ''1003'' ''1700000031000'')"
proof -
  have w: "writes demoParse (Date 1700000010000) (Date 1700000040000)
        (fetched (fst (walk pagedEnv ''42'' ''token'' (Date 1700000010000)
           (Some (Date 1700000040000)) None)))
     = replicate 100 (demoMessage ''1003'' ''1700000030000'')
         @ [demoMessage ''1003'' ''1700000031000'', demoMessage ''1002'' ''1700000020000'']"
    unfolding paged_trace by code_simp
  have p: "parseDate pagedEnv = demoParse" and t: "effectiveTo pagedEnv (Some d) = d" for d
    by (simp_all add: pagedEnv_def effectiveTo_def)
  have i: "id_msg (demoMessage ''1003'' ''1700000031000'') = ''1003''" by (simp add: demoMessage_def)
  from one_entry_per_id [OF paged_result, unfolded p t w]
  have "distinct (map id_msg [demoMessage ''1002'' ''1700000020000'', demoMessage ''1003'' ''1700000031000''])"
    and "find (\<lambda>w. id_msg w = id_msg (demoMessage ''1003'' ''1700000031000''))
        (rev (replicate 100 (demoMessage ''1003'' ''1700000030000'')
                @ [demoMessage ''1003'' ''1700000031000'', demoMessage ''1002'' ''1700000020000'']))
     = Some (demoMessage ''1003'' ''1700000031000'')"
    by simp_all
  with paged_result w show ?thesis unfolding i by blast
qed

text \<open>
  Claim C4. The list that \<open>getAllMessagesBetweenDates\<close> returns is in non-decreasing
  order of time, whatever the pages held and in whatever order.
\<close>

theorem result_sorted_by_timestamp:
  "getAllMessagesBetweenDates e channelId userToken fromDate toDate maxPages = Inr r
   \<Longrightarrow> sorted_wrt (\<lambda>a b. js_le (msgTime (parseDate e) a) (msgTime (parseDate e) b)) r"
proof -
  assume a: "getAllMessagesBetweenDates e channelId userToken fromDate toDate maxPages = Inr r"
  let ?xs = "map snd (allMessages (fst (walk e channelId userToken fromDate toDate maxPages)))"
  from a have r: "r = sortWith (compareTimestamps (parseDate e)) ?xs"
    by (auto simp: getAll_eq split: option.splits)
  have "\<forall>y\<in>set ?xs. msgTime (parseDate e) y \<noteq> None"
  proof
    fix y assume "y \<in> set ?xs"
    then have "y \<in> set r" by (simp add: r sortWith_set)
    with a have "inWindow (parseDate e) fromDate (effectiveTo e toDate) y"
      using result_written written_inWindow by blast
    then show "msgTime (parseDate e) y \<noteq> None" using inWindow_times by fastforce
  qed
  then have "sorted_wrt (timeLe (parseDate e)) r" unfolding r by (rule sortWith_sorted)
  then show ?thesis by (simp add: timeLe_def [abs_def])
qed

theorem result_sorted_by_timestamp_witness:
  "getAllMessagesBetweenDates demoEnv ''42'' ''token'' (Date 1700000010000)
      (Some (Date 1700000040000)) None
     = Inr [demoMessage ''1002'' ''1700000025000'', demoMessage ''1003'' ''1700000030000'']
   \<and> sorted_wrt (\<lambda>a b. js_le (msgTime demoParse a) (msgTime demoParse b))
        [demoMessage ''1002'' ''1700000025000'', demoMessage ''1003'' ''1700000030000'']"
  using result_sorted_by_timestamp [OF demo_result] demo_result by (simp add: demoEnv_def)

text \<open>
  Claim C5. A run issues at most \<open>maxPages\<close> page fetches (50 when the bound is left
  out, none when it is not positive), and the trace holds exactly the fetches issued. With
  \<open>maxPages = 1\<close> and a first page that arrives, that page is the only one fetched,
  however many messages the channel holds, and the result is the sorted list of the messages
  of that page that were set into the map, all of them in the window. A run in which no
  fetch fails returns a list, also when it ends at the bound.
\<close>

theorem page_fetches_bounded:
  "int (length (fetched (fst (walk e channelId userToken fromDate toDate maxPages))))
     \<le> max 0 (case maxPages of None \<Rightarrow> 50 | Some n \<Rightarrow> n)
   \<and> (i < length (fetched (fst (walk e channelId userToken fromDate toDate maxPages))) \<longrightarrow>
        snd (fetched (fst (walk e channelId userToken fromDate toDate maxPages)) ! i)
          = fetchMessagesPage e i channelId userToken
              (fst (fetched (fst (walk e channelId userToken fromDate toDate maxPages)) ! i)) None)
   \<and> (fetchMessagesPage e 0 channelId userToken (initialCursor e toDate) None = Inr page \<longrightarrow>
        fetched (fst (walk e channelId userToken fromDate toDate (Some 1)))
          = [(initialCursor e toDate, Inr page)]
        \<and> getAllMessagesBetweenDates e channelId userToken fromDate toDate (Some 1)
          = Inr (sortWith (compareTimestamps (parseDate e))
                  (map snd (foldl setMessage []
                     (accepted (parseDate e) fromDate (effectiveTo e toDate) page))))
        \<and> (\<forall>r. getAllMessagesBetweenDates e channelId userToken fromDate toDate (Some 1) = Inr r \<longrightarrow>
              set r \<subseteq> {m \<in> set page. inWindow (parseDate e) fromDate (effectiveTo e toDate) m}))
   \<and> ((\<forall>x\<in>set (fetched (fst (walk e channelId userToken fromDate toDate maxPages))).
          \<exists>page. snd x = Inr page) \<longrightarrow>
        (\<exists>r. getAllMessagesBetweenDates e channelId userToken fromDate toDate maxPages = Inr r))"
proof (intro conjI impI allI)
  show "int (length (fetched (fst (walk e channelId userToken fromDate toDate maxPages))))
     \<le> max 0 (case maxPages of None \<Rightarrow> 50 | Some n \<Rightarrow> n)"
    using walk_length [of e channelId userToken fromDate toDate maxPages] by (simp add: pageLimit_def)
next
  assume "i < length (fetched (fst (walk e channelId userToken fromDate toDate maxPages)))"
  then show "snd (fetched (fst (walk e channelId userToken fromDate toDate maxPages)) ! i)
          = fetchMessagesPage e i channelId userToken
              (fst (fetched (fst (walk e channelId userToken fromDate toDate maxPages)) ! i)) None"
    by (rule walk_trace_nth)
next
  assume a: "fetchMessagesPage e 0 channelId userToken (initialCursor e toDate) None = Inr page"
  then show t: "fetched (fst (walk e channelId userToken fromDate toDate (Some 1)))
          = [(initialCursor e toDate, Inr page)]"
    by (rule walk_one_page)
  then show g: "getAllMessagesBetweenDates e channelId userToken fromDate toDate (Some 1)
          = Inr (sortWith (compareTimestamps (parseDate e))
                  (map snd (foldl setMessage []
                     (accepted (parseDate e) fromDate (effectiveTo e toDate) page))))"
    using getAll_no_failure [of e channelId userToken fromDate toDate "Some 1"]
    by (simp add: writes_simps)
  fix r
  assume "getAllMessagesBetweenDates e channelId userToken fromDate toDate (Some 1) = Inr r"
  then have "\<forall>m\<in>set r. m \<in> set (accepted (parseDate e) fromDate (effectiveTo e toDate) page)"
    using result_written [of e channelId userToken fromDate toDate "Some 1" r] t
    by (simp add: writes_simps)
  then show "set r \<subseteq> {m \<in> set page. inWindow (parseDate e) fromDate (effectiveTo e toDate) m}"
    using accepted_inWindow by blast
next
  assume "\<forall>x\<in>set (fetched (fst (walk e channelId userToken fromDate toDate maxPages))).
          \<exists>page. snd x = Inr page"
  then show "\<exists>r. getAllMessagesBetweenDates e channelId userToken fromDate toDate maxPages = Inr r"
    using getAll_no_failure by blast
qed

theorem page_fetches_bounded_witness:
  "fetchMessagesPage pagedEnv 0 ''42'' ''token'' (initialCursor pagedEnv (Some (Date 1700000040000))) None
     = Inr (replicate 100 (demoMessage ''1003'' ''1700000030000''))
   \<and> length (fetched (fst (walk pagedEnv ''42'' ''token'' (Date 1700000010000)
        (Some (Date 1700000040000)) None))) = 2
   \<and> fetched (fst (walk pagedEnv ''42'' ''token'' (Date 1700000010000)
        (Some (Date 1700000040000)) (Some 1)))
       = [(initialCursor pagedEnv (Some (Date 1700000040000)),
           Inr (replicate 100 (demoMessage ''1003'' ''1700000030000'')))]
   \<and> getAllMessagesBetweenDates pagedEnv ''42'' ''token'' (Date 1700000010000)
          (Some (Date 1700000040000)) (Some 1)
       = Inr [demoMessage ''1003'' ''1700000030000'']"
proof -
  note inst = page_fetches_bounded [of pagedEnv "''42''" "''token''" "Date 1700000010000"
      "Some (Date 1700000040000)" "Some 1" 0 "replicate 100 (demoMessage ''1003'' ''1700000030000'')"]
  have f: "fetchMessagesPage pagedEnv 0 ''42'' ''token''
      (initialCursor pagedEnv (Some (Date 1700000040000))) None
       = Inr (replicate 100 (demoMessage ''1003'' ''1700000030000''))"
    by (rule paged_fetch)
  have s: "sortWith (compareTimestamps (parseDate pagedEnv))
      (map snd (foldl setMessage []
         (accepted (parseDate pagedEnv) (Date 1700000010000)
            (effectiveTo pagedEnv (Some (Date 1700000040000)))
            (replicate 100 (demoMessage ''1003'' ''1700000030000'')))))
     = [demoMessage ''1003'' ''1700000030000'']"
    by code_simp
  from inst f have "fetched (fst (walk pagedEnv ''42'' ''token'' (Date 1700000010000)
        (Some (Date 1700000040000)) (Some 1)))
       = [(initialCursor pagedEnv (Some (Date 1700000040000)),
           Inr (replicate 100 (demoMessage ''1003'' ''1700000030000'')))]"
    and "getAllMessagesBetweenDates pagedEnv ''42'' ''token'' (Date 1700000010000)
          (Some (Date 1700000040000)) (Some 1)
       = Inr [demoMessage ''1003'' ''1700000030000'']"
    unfolding s by blast+
  with f show ?thesis by (simp add: paged_trace)
qed

text \<open>
  Claim C6, amended. A page fetch whose response has status 429 fails with the rate-limit
  object; its \<open>retryAfter\<close> is what \<open>parseInt\<close> reads from the \<open>Retry-After\<close> header,
  and 5 when the header is absent or empty, when it does not parse, or when it parses to 0.
  The header \<open>12\<close> gives 12, no header gives 5.
\<close>

theorem rate_limit_retry_after:
  "fetch e n (messagesUrl (apiBase e) channelId before after) userToken = Inr response
   \<Longrightarrow> status response = 429
   \<Longrightarrow> fetchMessagesPage e n channelId userToken before after =
       Inl (RateLimitObject 429
              (case retryAfterHeader response of
                 None \<Rightarrow> 5
               | Some h \<Rightarrow> (case parseInt10 h of None \<Rightarrow> 5 | Some n \<Rightarrow> if n = 0 then 5 else n))
              ''Rate limited by Discord API'')
     \<and> (retryAfterHeader response = Some ''12'' \<longrightarrow>
          fetchMessagesPage e n channelId userToken before after =
            Inl (RateLimitObject 429 12 ''Rate limited by Discord API''))
     \<and> (retryAfterHeader response = None \<longrightarrow>
          fetchMessagesPage e n channelId userToken before after =
            Inl (RateLimitObject 429 5 ''Rate limited by Discord API''))"
proof -
  have 12: "parseInt10 ''12'' = Some 12" by code_simp
  assume "fetch e n (messagesUrl (apiBase e) channelId before after) userToken = Inr response"
    and "status response = 429"
  then show ?thesis
    by (simp add: fetchMessagesPage_def handleResponse_429 12)
qed

theorem rate_limit_retry_after_witness:
  "fetch (env429 (Some ''12'')) 0 (messagesUrl (apiBase (env429 (Some ''12''))) ''42'' None None) ''token''
     = Inr \<lparr>status = 429, retryAfterHeader = Some ''12'', json = Inr []\<rparr>
   \<and> fetchMessagesPage (env429 (Some ''12'')) 0 ''42'' ''token'' None None
     = Inl (RateLimitObject 429 12 ''Rate limited by Discord API'')
   \<and> fetch (env429 None) 0 (messagesUrl (apiBase (env429 None)) ''42'' None None) ''token''
     = Inr \<lparr>status = 429, retryAfterHeader = None, json = Inr []\<rparr>
   \<and> fetchMessagesPage (env429 None) 0 ''42'' ''token'' None None
     = Inl (RateLimitObject 429 5 ''Rate limited by Discord API'')"
proof -
  have a: "fetch (env429 h) 0 (messagesUrl (apiBase (env429 h)) ''42'' None None) ''token''
     = Inr \<lparr>status = 429, retryAfterHeader = h, json = Inr []\<rparr>" for h
    by (simp add: env429_def)
  have 12: "parseInt10 ''12'' = Some 12" by code_simp
  show ?thesis
    using rate_limit_retry_after [OF a [of "Some ''12''"]] rate_limit_retry_after [OF a [of None]] a
    by (simp add: 12)
qed

text \<open>
  The claim as it stands fails for the header \<open>0\<close>: it parses, to 0, and the value
  carried is 5.
\<close>

theorem retry_after_zero_counterexample:
  "parseInt10 ''0'' = Some 0
   \<and> handleResponse \<lparr>status = 429, retryAfterHeader = Some ''0'', json = Inr ([] :: message list)\<rparr>
       = Inl (RateLimitObject 429 5 ''Rate limited by Discord API'')"
proof -
  have "parseInt10 ''0'' = Some 0" by code_simp
  then show ?thesis by (simp add: handleResponse_def ok_def)
qed

text \<open>
  Claim C7, amended. When a page fetch of the walk fails, it is the last fetch of the run
  and \<open>getAllMessagesBetweenDates\<close> throws a new \<open>Error\<close>, so no messages are returned;
  the message of that error is \<open>Failed to fetch messages: \<close> followed by the message of
  the cause when the cause is an \<open>Error\<close>, and by \<open>Unknown error\<close> when it is the
  rate-limit object.
\<close>

theorem fetch_failure_aborts:
  "i < length (fetched (fst (walk e channelId userToken fromDate toDate maxPages)))
   \<Longrightarrow> fetchMessagesPage e i channelId userToken
         (fst (fetched (fst (walk e channelId userToken fromDate toDate maxPages)) ! i)) None = Inl err
   \<Longrightarrow> Suc i = length (fetched (fst (walk e channelId userToken fromDate toDate maxPages)))
     \<and> getAllMessagesBetweenDates e channelId userToken fromDate toDate maxPages =
         Inl (JsError PlainError
               (''Failed to fetch messages: ''
                  @ (case err of JsError c m \<Rightarrow> m | RateLimitObject st ra m \<Rightarrow> ''Unknown error'')))"
  using walk_failure_is_last [of i e channelId userToken fromDate toDate maxPages err]
  by (simp add: getAll_eq causeText_def)

theorem fetch_failure_aborts_witness:
  "fetchMessagesPage offlineEnv 0 ''42'' ''token''
      (fst (fetched (fst (walk offlineEnv ''42'' ''token'' (Date 1700000010000)
              (Some (Date 1700000040000)) None)) ! 0)) None
     = Inl (JsError TypeError ''Failed to fetch'')
   \<and> length (fetched (fst (walk offlineEnv ''42'' ''token'' (Date 1700000010000)
              (Some (Date 1700000040000)) None))) = 1
   \<and> getAllMessagesBetweenDates offlineEnv ''42'' ''token'' (Date 1700000010000)
        (Some (Date 1700000040000)) None
     = Inl (JsError PlainError ''Failed to fetch messages: Failed to fetch'')"
proof -
  have f: "fetchMessagesPage offlineEnv 0 ''42'' ''token'' c None
     = Inl (JsError TypeError ''Failed to fetch'')" for c
    by (simp add: fetchMessagesPage_def offlineEnv_def)
  have l: "0 < length (fetched (fst (walk offlineEnv ''42'' ''token'' (Date 1700000010000)
              (Some (Date 1700000040000)) None)))"
    using walk_first [of None offlineEnv "''42''" "''token''" "Date 1700000010000"
        "Some (Date 1700000040000)"] by (simp add: pageLimit_def)
  from fetch_failure_aborts [OF l f] f show ?thesis by simp
qed

text \<open>
  The claim as it stands fails for a rate-limited fetch: the error thrown holds neither the
  status nor the \<open>retryAfter\<close> nor the message of its cause, and is the same for two
  different causes.
\<close>

theorem wrapped_error_loses_cause_counterexample:
  "fetchMessagesPage (env429 (Some ''12'')) 0 ''42'' ''token'' (Some ''1174110008770560000'') None
     = Inl (RateLimitObject 429 12 ''Rate limited by Discord API'')
   \<and> fetched (fst (walk (env429 (Some ''12'')) ''42'' ''token'' (Date 1700000010000)
        (Some (Date 1700000040000)) None))
     = [(Some ''1174110008770560000'', Inl (RateLimitObject 429 12 ''Rate limited by Discord API''))]
   \<and> getAllMessagesBetweenDates (env429 (Some ''12'')) ''42'' ''token'' (Date 1700000010000)
        (Some (Date 1700000040000)) None
     = Inl (JsError PlainError ''Failed to fetch messages: Unknown error'')
   \<and> getAllMessagesBetweenDates (env429 None) ''42'' ''token'' (Date 1700000010000)
        (Some (Date 1700000040000)) None
     = Inl (JsError PlainError ''Failed to fetch messages: Unknown error'')"
  by code_simp

text \<open>
  Claim C8, amended. When \<open>dateToDiscordSnowflake\<close> returns null for the effective end
  date and the page bound is positive, \<open>getAllMessagesBetweenDates\<close> makes no test of the
  null: it issues the first page request with a null cursor, and the URL of that request
  has no \<open>before\<close> parameter. When the effective end date is the invalid date, no message
  is in the window, so a run that returns a list returns the empty one.
\<close>

theorem null_cursor_still_fetches:
  "dateToDiscordSnowflake (parseDate e) (DateArg (effectiveTo e toDate)) = Inr None
   \<Longrightarrow> 0 < (case maxPages of None \<Rightarrow> 50 | Some n \<Rightarrow> n)
   \<Longrightarrow> fetched (fst (walk e channelId userToken fromDate toDate maxPages)) \<noteq> []
     \<and> hd (fetched (fst (walk e channelId userToken fromDate toDate maxPages)))
         = (None, fetchMessagesPage e 0 channelId userToken None None)
     \<and> messagesUrl (apiBase e) channelId None None
         = apiBase e @ ''/channels/'' @ channelId @ ''/messages?limit=100''
     \<and> (effectiveTo e toDate = InvalidDate \<longrightarrow>
          (\<forall>r. getAllMessagesBetweenDates e channelId userToken fromDate toDate maxPages = Inr r
             \<longrightarrow> r = []))"
proof -
  let ?tr = "fetched (fst (walk e channelId userToken fromDate toDate maxPages))"
  assume n: "dateToDiscordSnowflake (parseDate e) (DateArg (effectiveTo e toDate)) = Inr None"
    and p: "0 < (case maxPages of None \<Rightarrow> 50 | Some n \<Rightarrow> n)"
  from n have c: "initialCursor e toDate = None" by (simp add: initialCursor_def)
  from p have ne: "?tr \<noteq> []" and h: "fst (hd ?tr) = None"
    using walk_first [of maxPages e channelId userToken fromDate toDate] c
    by (simp_all add: pageLimit_def)
  from ne have "snd (hd ?tr) = fetchMessagesPage e 0 channelId userToken (fst (hd ?tr)) None"
    using walk_trace_nth [of 0 e channelId userToken fromDate toDate maxPages]
    by (simp add: hd_conv_nth)
  with h have hd: "hd ?tr = (None, fetchMessagesPage e 0 channelId userToken None None)"
    by (cases "hd ?tr") simp
  have u: "messagesUrl (apiBase e) channelId None None
         = apiBase e @ ''/channels/'' @ channelId @ ''/messages?limit=100''"
    by (simp add: messagesUrl_def queryParam_def)
  have "r = []" if "effectiveTo e toDate = InvalidDate"
    "getAllMessagesBetweenDates e channelId userToken fromDate toDate maxPages = Inr r" for r
  proof -
    from that have "set r \<subseteq> set (writes (parseDate e) fromDate InvalidDate ?tr)"
      using result_written [of e channelId userToken fromDate toDate maxPages r] by auto
    then show ?thesis by (simp add: writes_invalid_to)
  qed
  with ne hd u show ?thesis by blast
qed

theorem null_cursor_still_fetches_witness:
  "dateToDiscordSnowflake (parseDate demoEnv) (DateArg (effectiveTo demoEnv (Some InvalidDate)))
     = Inr None
   \<and> (0::int) < (case None of None \<Rightarrow> 50 | Some n \<Rightarrow> n)
   \<and> effectiveTo demoEnv (Some InvalidDate) = InvalidDate
   \<and> hd (fetched (fst (walk demoEnv ''42'' ''token'' (Date 1700000010000) (Some InvalidDate) None)))
       = (None, Inr demoPage)
   \<and> messagesUrl (apiBase demoEnv) ''42'' None None
       = ''https://discord.com/api/v9/channels/42/messages?limit=100''"
proof -
  have n: "dateToDiscordSnowflake (parseDate demoEnv) (DateArg (effectiveTo demoEnv (Some InvalidDate)))
     = Inr None"
    by (simp add: effectiveTo_def dateToDiscordSnowflake_invalid)
  have p: "(0::int) < (case None of None \<Rightarrow> 50 | Some n \<Rightarrow> n)" by simp
  have e: "effectiveTo demoEnv (Some InvalidDate) = InvalidDate" by (simp add: effectiveTo_def)
  have b: "apiBase demoEnv = ''https://discord.com/api/v9''" by (simp add: demoEnv_def)
  from null_cursor_still_fetches [OF n p, of "''42''" "''token''" "Date 1700000010000"] n e
  show ?thesis by (simp add: demo_fetch b)
qed

text \<open>
  The claim as it stands fails for an invalid end date: the cursor is null, a page request
  is issued all the same, and the call returns the empty list.
\<close>

theorem null_cursor_counterexample:
  "dateToDiscordSnowflake (parseDate demoEnv) (DateArg (effectiveTo demoEnv (Some InvalidDate)))
     = Inr None
   \<and> fetched (fst (walk demoEnv ''42'' ''token'' (Date 1700000010000) (Some InvalidDate) None))
     = [(None, Inr demoPage)]
   \<and> getAllMessagesBetweenDates demoEnv ''42'' ''token'' (Date 1700000010000) (Some InvalidDate) None
     = Inr []"
  by code_simp

text \<open>
  Claim C9. \<open>snowflakeToDate\<close> gives null for \<open>"not-a-number"\<close> and for the empty string;
  \<open>dateToDiscordSnowflake\<close> gives null for null, for an invalid date and for a string
  that does not parse as a date; and neither operation ever throws.
\<close>

theorem codec_failure_is_null:
  "snowflakeToDate ''not-a-number'' = Inr None
   \<and> snowflakeToDate [] = Inr None
   \<and> dateToDiscordSnowflake parse NullArg = Inr None
   \<and> dateToDiscordSnowflake parse (DateArg InvalidDate) = Inr None
   \<and> (parse str = InvalidDate \<longrightarrow> dateToDiscordSnowflake parse (StringArg str) = Inr None)
   \<and> (\<exists>r. snowflakeToDate snowflake = Inr r)
   \<and> (\<exists>r. dateToDiscordSnowflake parse date = Inr r)"
proof -
  have "snowflakeToDate ''not-a-number'' = Inr None" by code_simp
  moreover have "snowflakeToDate [] = Inr None" by (simp add: snowflakeToDate_def)
  ultimately show ?thesis
    using snowflakeToDate_returns dateToDiscordSnowflake_returns
    by (simp add: dateToDiscordSnowflake_invalid)
qed

theorem codec_failure_is_null_witness:
  "(\<lambda>s. InvalidDate) ''31st of Juvember'' = InvalidDate
   \<and> dateToDiscordSnowflake (\<lambda>s. InvalidDate) (StringArg ''31st of Juvember'') = Inr None"
  using codec_failure_is_null [of "\<lambda>s. InvalidDate" "''31st of Juvember''"] by simp

text \<open>
  Claim C10, amended. \<open>formatMessagesForPrompt\<close> never throws; it drops every message
  that is null, has no author, or has no content or the empty content, renders each other
  message as \<open>username: trimmed content\<close>, joins the lines with newlines and keeps the
  input order; the input of the example gives exactly \<open>a: hi\<close>.
\<close>

theorem formatMessagesForPrompt_lines:
  "formatMessagesForPrompt messages = Inr (join [CHR 0x0A] (promptLines messages))
   \<and> formatMessagesForPrompt
        [Some \<lparr>id_msg = i1, author = Some \<lparr>username = ''a''\<rparr>, content = Some '' hi '', timestamp = t1\<rparr>,
         Some \<lparr>id_msg = i2, author = None, content = Some ''x'', timestamp = t2\<rparr>]
       = Inr ''a: hi''"
proof -
  have g: "formatMessagesForPrompt ms = Inr (join [CHR 0x0A] (promptLines ms))" for ms
    by (simp add: formatMessagesForPrompt_def mapThrowing_render)
  have "trim '' hi '' = ''hi''" by code_simp
  then show ?thesis
    unfolding g by simp
qed

text \<open>
  The claim as it stands fails for a message that has an author and the empty content:
  nothing is missing, and the message is dropped all the same.
\<close>

theorem formatMessagesForPrompt_empty_content_counterexample:
  "formatMessagesForPrompt
     [Some \<lparr>id_msg = ''1'', author = Some \<lparr>username = ''a''\<rparr>, content = Some [], timestamp = ''t''\<rparr>]
   = Inr []"
  by (simp add: formatMessagesForPrompt_def keepMessage_def)

end
